theory Spec2Isabelle
  imports Main
begin

section \<open>JavaScript values held in the game state\<close>

text \<open>
  The game state of the relay game is a JavaScript array of player arrays. Each player
  array is used positionally: index 0 is the file name of the first recording, index 1
  the file name of the second recording, index 2 the player name and index 3 the clock
  reading (milliseconds) taken when the first recording was stored. The handlers store
  only \<open>null\<close>, strings and integer clock readings there; \<open>undefined\<close> is what reading
  an array beyond its length gives. Numbers are integers: fractions, NaN and the
  infinities are not modelled, and \<open>-0\<close> is 0.
\<close>

datatype jsval = JUndefined | JNull | JBool bool | JNum int | JStr string

type_synonym player = "jsval list"
type_synonym gameState = "player list"

text \<open>JavaScript's truthiness, used by every \<open>if (x)\<close>, \<open>!x\<close>, \<open>x && y\<close> and \<open>x || y\<close>.\<close>

fun truthy :: "jsval \<Rightarrow> bool" where
  "truthy JUndefined = False"
| "truthy JNull = False"
| "truthy (JBool b) = b"
| "truthy (JNum n) = (n \<noteq> 0)"
| "truthy (JStr s) = (s \<noteq> [])"

text \<open>\<open>a[i]\<close>: reading beyond the length gives \<open>undefined\<close>.\<close>

definition js_get :: "jsval list \<Rightarrow> nat \<Rightarrow> jsval" where
  "js_get a i = (if i < length a then a ! i else JUndefined)"

text \<open>\<open>a[i] = v\<close>: writing beyond the length extends the array.\<close>

definition js_set :: "jsval list \<Rightarrow> nat \<Rightarrow> jsval \<Rightarrow> jsval list" where
  "js_set a i v =
     (if i < length a then a[i := v]
      else a @ replicate (i - length a) JUndefined @ [v])"

text \<open>
  \<open>now - x\<close> for the clock reading \<open>now\<close> and a value \<open>x\<close>: \<open>None\<close> is NaN. A string
  operand is converted by the language's string-to-number conversion, which is taken
  as the parameter \<open>toNum\<close>: every property below holds for whatever it is.
\<close>

fun js_minus :: "(string \<Rightarrow> int option) \<Rightarrow> int \<Rightarrow> jsval \<Rightarrow> int option" where
  "js_minus toNum now JUndefined = None"
| "js_minus toNum now JNull = Some now"
| "js_minus toNum now (JBool b) = Some (now - (if b then 1 else 0))"
| "js_minus toNum now (JNum t) = Some (now - t)"
| "js_minus toNum now (JStr s) = map_option (\<lambda>t. now - t) (toNum s)"

text \<open>\<open>x > y\<close> on numbers: every comparison with NaN is false.\<close>

fun js_gt :: "int option \<Rightarrow> int \<Rightarrow> bool" where
  "js_gt None y = False"
| "js_gt (Some x) y = (x > y)"

text \<open>
  The conversion that reads no string as a number. It stands for \<open>toNum\<close> in the
  concrete game states below, none of which has a string as a time stamp.
\<close>

definition noNumber :: "string \<Rightarrow> int option" where
  "noNumber s = None"

section \<open>Turn status\<close>

record playerStatus =
  isNewPlayer :: bool
  playerNumber :: nat
  needsSecondFile :: bool
  canRecordFirst :: bool
  canRecordSecond :: bool
  isRecording :: bool

definition twoMinutes :: int where
  "twoMinutes = 2 * 60 * 1000"

text \<open>
  \<open>getCurrentPlayerStatus(gameState)\<close>, the same function in both server files. It reads
  the clock (\<open>Date.now()\<close>, here the argument \<open>now\<close>) and, on a timeout, clears two cells
  of the last player array, which is shared with the game state: the function returns
  the status together with the game state as it leaves it.
\<close>

definition getCurrentPlayerStatus ::
  "(string \<Rightarrow> int option) \<Rightarrow> int \<Rightarrow> gameState \<Rightarrow> playerStatus \<times> gameState" where
  "getCurrentPlayerStatus toNum now gameState =
    (if length gameState = 0 then
       (\<lparr>isNewPlayer = True, playerNumber = 1, needsSecondFile = False,
         canRecordFirst = True, canRecordSecond = False, isRecording = False\<rparr>, gameState)
     else
       let lastPlayer = gameState ! (length gameState - 1) in
       if length lastPlayer \<ge> 4 \<and> truthy (js_get lastPlayer 0) \<and> truthy (js_get lastPlayer 1) then
         (\<lparr>isNewPlayer = True, playerNumber = length gameState + 1, needsSecondFile = False,
           canRecordFirst = True, canRecordSecond = False, isRecording = False\<rparr>, gameState)
       else if length lastPlayer \<ge> 4 \<and> truthy (js_get lastPlayer 0) \<and> \<not> truthy (js_get lastPlayer 1) then
         let recordingStartTime = js_get lastPlayer 3 in
         if truthy recordingStartTime \<and> js_gt (js_minus toNum now recordingStartTime) twoMinutes then
           (\<lparr>isNewPlayer = True, playerNumber = length gameState, needsSecondFile = False,
             canRecordFirst = True, canRecordSecond = False, isRecording = False\<rparr>,
            gameState[length gameState - 1 := js_set (js_set lastPlayer 0 JNull) 3 JNull])
         else
           (\<lparr>isNewPlayer = False, playerNumber = length gameState, needsSecondFile = True,
             canRecordFirst = False, canRecordSecond = True, isRecording = False\<rparr>, gameState)
       else if \<not> truthy (js_get lastPlayer 0) then
         (\<lparr>isNewPlayer = False, playerNumber = length gameState, needsSecondFile = False,
           canRecordFirst = True, canRecordSecond = False, isRecording = False\<rparr>, gameState)
       else
         (\<lparr>isNewPlayer = False, playerNumber = length gameState, needsSecondFile = False,
           canRecordFirst = False, canRecordSecond = False, isRecording = False\<rparr>, gameState))"

section \<open>Numbers in file names and default names\<close>

text \<open>
  \<open>String(n)\<close> and template literals \<open>${n}\<close> print an integer in decimal: \<open>dec\<close> the
  digits of one that is not negative, \<open>dec_int\<close> any. (The language prints all the
  digits of an integer below \<open>10^21\<close>; indices, clock readings and the safe integers
  are below.)
\<close>

definition digit :: "int \<Rightarrow> char" where
  "digit d = char_of (48 + d)"

function dec :: "int \<Rightarrow> string" where
  "dec n = (if n < 10 then [digit n] else dec (n div 10) @ [digit (n mod 10)])"
  by pat_completeness auto
termination
  by (relation "measure nat") auto

declare dec.simps [simp del]

definition dec_int :: "int \<Rightarrow> string" where
  "dec_int i = (if i < 0 then CHR ''-'' # dec (- i) else dec i)"

text \<open>\<open>s.includes(t)\<close>: \<open>t\<close> occurs in \<open>s\<close> as a contiguous piece.\<close>

fun js_includes :: "string \<Rightarrow> string \<Rightarrow> bool" where
  "js_includes [] t = (t = [])"
| "js_includes (c # cs) t = (take (length t) (c # cs) = t \<or> js_includes cs t)"

section \<open>Visible recordings\<close>

text \<open>
  One entry of \<open>visibleFiles\<close>: the object literal with the keys \<open>playerNumber\<close>,
  \<open>playerName\<close>, \<open>firstFile\<close> and \<open>secondFile\<close> (the first two are prefixed here, as
  the status and the request have keys of the same names).
\<close>

record playerFiles =
  pfNumber :: nat
  pfName :: jsval
  firstFile :: jsval
  secondFile :: jsval

text \<open>The body of the loop of \<open>getVisibleAudioFiles\<close> at index \<open>i < gameState.length\<close>.\<close>

definition playerFilesAt :: "gameState \<Rightarrow> nat \<Rightarrow> playerFiles" where
  "playerFilesAt gameState i =
    (let player = gameState ! i;
         name = (if truthy (js_get player 2) then js_get player 2
                 else JStr (''Player '' @ dec_int (int i + 1)));
         pf0 = \<lparr>pfNumber = i + 1, pfName = name, firstFile = JNull, secondFile = JNull\<rparr>;
         pf1 = (if truthy (js_get player 0) then pf0\<lparr>firstFile := js_get player 0\<rparr> else pf0)
     in if truthy (js_get player 1) then
          (if i + 1 < length gameState \<and> truthy (js_get (gameState ! (i + 1)) 0)
           then pf1\<lparr>secondFile := js_get player 1\<rparr> else pf1)
        else pf1)"

function visibleLoop :: "gameState \<Rightarrow> nat \<Rightarrow> playerFiles list \<Rightarrow> playerFiles list" where
  "visibleLoop gameState i visibleFiles =
    (if i < length gameState
     then visibleLoop gameState (i + 1) (visibleFiles @ [playerFilesAt gameState i])
     else visibleFiles)"
  by pat_completeness auto
termination
  by (relation "measure (\<lambda>(gameState, i, visibleFiles). length gameState - i)") auto

declare visibleLoop.simps [simp del]

definition getVisibleAudioFiles :: "gameState \<Rightarrow> playerFiles list" where
  "getVisibleAudioFiles gameState = visibleLoop gameState 0 []"

section \<open>The recording routes\<close>

text \<open>
  A route answers with \<open>success: true\<close> and the stored file name, with status 400 and an
  error message, or (from its \<open>catch\<close>) with status 500.
\<close>

datatype response = Success string | BadRequest string | ServerError

text \<open>The fields of the request body that the routes read.\<close>

record request =
  audioData :: jsval
  mimeType :: jsval
  playerName :: jsval

text \<open>
  What a route takes from its environment, in the order it asks for it: the clock read
  by the status check, the clock and the random number (\<open>Math.round(Math.random() * 1E9)\<close>)
  of the unique id, whether writing the audio file succeeds, and the clock stored as the
  time stamp.
\<close>

record env =
  statusClock :: int
  idClock :: int
  random :: int
  writeOk :: bool
  stampClock :: int

text \<open>\<open>player${playerIdx}_file${k}_${uniqueId}${extension}\<close>\<close>

definition fileName :: "int \<Rightarrow> int \<Rightarrow> env \<Rightarrow> string \<Rightarrow> string" where
  "fileName playerIdx k e mime =
    (let uniqueId = dec_int (idClock e) @ ''-'' @ dec_int (random e);
         extension = (if js_includes mime ''webm'' then ''.webm'' else ''.wav'')
     in ''player'' @ dec_int playerIdx @ ''_file'' @ dec_int k @ ''_'' @ uniqueId @ extension)"

text \<open>
  The array pushed for a new player: \<open>[filename, null, playerName || `<word> ${playerIdx + 1}`,
  Date.now()]\<close>, where the word is \<open>Spieler\<close> in the shared-state server and \<open>Player\<close> in
  the session server.
\<close>

definition newPlayer :: "string \<Rightarrow> string \<Rightarrow> jsval \<Rightarrow> nat \<Rightarrow> int \<Rightarrow> player" where
  "newPlayer word filename name playerIdx stamp =
    [JStr filename, JNull,
     (if truthy name then name else JStr (word @ '' '' @ dec_int (int playerIdx + 1))),
     JNum stamp]"

text \<open>
  The three assignments of the second route to the last player array:
  second file, name if one was sent, time stamp cleared.
\<close>

definition setSecond :: "string \<Rightarrow> jsval \<Rightarrow> gameState \<Rightarrow> gameState" where
  "setSecond filename name gameState =
    (let k = length gameState - 1;
         g1 = gameState[k := js_set (gameState ! k) 1 (JStr filename)];
         g2 = (if truthy name then g1[k := js_set (g1 ! k) 2 name] else g1)
     in g2[k := js_set (g2 ! k) 3 JNull])"

subsection \<open>The turn engine: status check and mutation, for a given file name\<close>

text \<open>
  \<open>recordFirst\<close> and \<open>recordSecond\<close> are the parts of the two routes of the shared-state
  server that touch the game state: the status is computed again, the request is turned
  down when the status does not permit it, and otherwise the game state is changed. The
  name under which the audio was stored is an argument.
\<close>

definition recordFirst ::
  "(string \<Rightarrow> int option) \<Rightarrow> int \<Rightarrow> int \<Rightarrow> string \<Rightarrow> jsval \<Rightarrow> gameState \<Rightarrow> response \<times> gameState" where
  "recordFirst toNum now stamp filename name gameState =
    (let (playerStatus, g) = getCurrentPlayerStatus toNum now gameState in
     if \<not> canRecordFirst playerStatus then (BadRequest ''Not ready to record first audio'', g)
     else (Success filename, g @ [newPlayer ''Spieler'' filename name (length g) stamp]))"

definition recordSecond ::
  "(string \<Rightarrow> int option) \<Rightarrow> int \<Rightarrow> string \<Rightarrow> jsval \<Rightarrow> gameState \<Rightarrow> response \<times> gameState" where
  "recordSecond toNum now filename name gameState =
    (let (playerStatus, g) = getCurrentPlayerStatus toNum now gameState in
     if \<not> canRecordSecond playerStatus then (BadRequest ''Not ready to record second audio'', g)
     else if length g = 0 then (ServerError, g)
     else (Success filename, setSecond filename name g))"

text \<open>The session server tests other flags of the status and names players in English.\<close>

definition recordFirst_session ::
  "(string \<Rightarrow> int option) \<Rightarrow> int \<Rightarrow> int \<Rightarrow> string \<Rightarrow> jsval \<Rightarrow> gameState \<Rightarrow> response \<times> gameState" where
  "recordFirst_session toNum now stamp filename name gameState =
    (let (playerStatus, g) = getCurrentPlayerStatus toNum now gameState in
     if \<not> isNewPlayer playerStatus then (BadRequest ''Not ready for new player'', g)
     else (Success filename, g @ [newPlayer ''Player'' filename name (length g) stamp]))"

definition recordSecond_session ::
  "(string \<Rightarrow> int option) \<Rightarrow> int \<Rightarrow> string \<Rightarrow> jsval \<Rightarrow> gameState \<Rightarrow> response \<times> gameState" where
  "recordSecond_session toNum now filename name gameState =
    (let (playerStatus, g) = getCurrentPlayerStatus toNum now gameState in
     if \<not> needsSecondFile playerStatus then (BadRequest ''Not ready for second file'', g)
     else if length g = 0 then (ServerError, g)
     else (Success filename, setSecond filename name g))"

subsection \<open>The routes of the shared-state server\<close>

text \<open>
  \<open>app.post('/api/record-first-audio')\<close>: the payload check, the status check, the file
  name, the write of the audio file, the push. \<open>mimeType.includes\<close> throws when
  \<open>mimeType\<close> is not a string, \<open>Buffer.from\<close> when \<open>audioData\<close> is not one, and the write
  may throw: all three end in the \<open>catch\<close>, after the status check has run. After the push the route calls \<open>saveGameState\<close> (below),
  which writes the file and leaves the game state in memory as it is.
\<close>

definition record_first_audio ::
  "(string \<Rightarrow> int option) \<Rightarrow> env \<Rightarrow> request \<Rightarrow> gameState \<Rightarrow> response \<times> gameState" where
  "record_first_audio toNum e req gameState =
    (if \<not> truthy (audioData req) then (BadRequest ''No audio data received'', gameState)
     else
       let (playerStatus, g) = getCurrentPlayerStatus toNum (statusClock e) gameState in
       if \<not> canRecordFirst playerStatus then (BadRequest ''Not ready to record first audio'', g)
       else
         (case mimeType req of
            JStr mime \<Rightarrow>
              let playerIdx = length g;
                  filename = fileName (int playerIdx) 1 e mime
              in (case audioData req of
                    JStr audio \<Rightarrow>
                      if \<not> writeOk e then (ServerError, g)
                      else (Success filename,
                            g @ [newPlayer ''Spieler'' filename (playerName req) playerIdx
                                   (stampClock e)])
                  | _ \<Rightarrow> (ServerError, g))
          | _ \<Rightarrow> (ServerError, g)))"

text \<open>\<open>app.post('/api/record-second-audio')\<close>\<close>

definition record_second_audio ::
  "(string \<Rightarrow> int option) \<Rightarrow> env \<Rightarrow> request \<Rightarrow> gameState \<Rightarrow> response \<times> gameState" where
  "record_second_audio toNum e req gameState =
    (if \<not> truthy (audioData req) then (BadRequest ''No audio data received'', gameState)
     else
       let (playerStatus, g) = getCurrentPlayerStatus toNum (statusClock e) gameState in
       if \<not> canRecordSecond playerStatus then (BadRequest ''Not ready to record second audio'', g)
       else
         (case mimeType req of
            JStr mime \<Rightarrow>
              let playerIdx = int (length g) - 1;
                  filename = fileName playerIdx 2 e mime
              in (case audioData req of
                    JStr audio \<Rightarrow>
                      if \<not> writeOk e then (ServerError, g)
                      else if length g = 0 then (ServerError, g)
                      else (Success filename, setSecond filename (playerName req) g)
                  | _ \<Rightarrow> (ServerError, g))
          | _ \<Rightarrow> (ServerError, g)))"

subsection \<open>The routes of the session server\<close>

text \<open>
  \<open>initializeGameState(req)\<close>: the game state of the session, created empty when the
  session has none (\<open>None\<close>).
\<close>

definition initializeGameState :: "gameState option \<Rightarrow> gameState" where
  "initializeGameState session = (case session of None \<Rightarrow> [] | Some gameState \<Rightarrow> gameState)"

definition record_first_audio_session ::
  "(string \<Rightarrow> int option) \<Rightarrow> env \<Rightarrow> request \<Rightarrow> gameState option \<Rightarrow> response \<times> gameState option" where
  "record_first_audio_session toNum e req session =
    (if \<not> truthy (audioData req) then (BadRequest ''No audio data received'', session)
     else
       let gameState = initializeGameState session;
           (playerStatus, g) = getCurrentPlayerStatus toNum (statusClock e) gameState in
       if \<not> isNewPlayer playerStatus then (BadRequest ''Not ready for new player'', Some g)
       else
         (case mimeType req of
            JStr mime \<Rightarrow>
              let playerIdx = length g;
                  filename = fileName (int playerIdx) 1 e mime
              in (case audioData req of
                    JStr audio \<Rightarrow>
                      if \<not> writeOk e then (ServerError, Some g)
                      else (Success filename,
                            Some (g @ [newPlayer ''Player'' filename (playerName req) playerIdx
                                         (stampClock e)]))
                  | _ \<Rightarrow> (ServerError, Some g))
          | _ \<Rightarrow> (ServerError, Some g)))"

definition record_second_audio_session ::
  "(string \<Rightarrow> int option) \<Rightarrow> env \<Rightarrow> request \<Rightarrow> gameState option \<Rightarrow> response \<times> gameState option" where
  "record_second_audio_session toNum e req session =
    (if \<not> truthy (audioData req) then (BadRequest ''No audio data received'', session)
     else
       let gameState = initializeGameState session;
           (playerStatus, g) = getCurrentPlayerStatus toNum (statusClock e) gameState in
       if \<not> needsSecondFile playerStatus then (BadRequest ''Not ready for second file'', Some g)
       else
         (case mimeType req of
            JStr mime \<Rightarrow>
              let playerIdx = int (length g) - 1;
                  filename = fileName playerIdx 2 e mime
              in (case audioData req of
                    JStr audio \<Rightarrow>
                      if \<not> writeOk e then (ServerError, Some g)
                      else if length g = 0 then (ServerError, Some g)
                      else (Success filename, Some (setSecond filename (playerName req) g))
                  | _ \<Rightarrow> (ServerError, Some g))
          | _ \<Rightarrow> (ServerError, Some g)))"

subsection \<open>Reset, and sequences of requests\<close>

text \<open>\<open>app.post('/api/reset-game')\<close>: \<open>sharedGameState = []\<close>\<close>

definition reset_game :: "gameState \<Rightarrow> gameState" where
  "reset_game gameState = []"

text \<open>
  The requests that reach the game state, and the game state after a sequence of them,
  starting from a given one. \<open>GetState\<close> is \<open>app.get('/api/game-state')\<close>, which computes
  the status.
\<close>

datatype call = GetState int | RecordFirst env request | RecordSecond env request | Reset

fun serve :: "(string \<Rightarrow> int option) \<Rightarrow> call \<Rightarrow> gameState \<Rightarrow> gameState" where
  "serve toNum (GetState now) g = snd (getCurrentPlayerStatus toNum now g)"
| "serve toNum (RecordFirst e req) g = snd (record_first_audio toNum e req g)"
| "serve toNum (RecordSecond e req) g = snd (record_second_audio toNum e req g)"
| "serve toNum Reset g = reset_game g"

fun run :: "(string \<Rightarrow> int option) \<Rightarrow> call list \<Rightarrow> gameState \<Rightarrow> gameState" where
  "run toNum [] g = g"
| "run toNum (c # cs) g = run toNum cs (serve toNum c g)"

section \<open>Predicates on game states\<close>

text \<open>
  A clip reference is the name of a stored audio file, a non-empty string; \<open>null\<close> is its
  absence. \<open>clipRefs p\<close>: the two file cells of a player array hold a clip reference or
  \<open>null\<close>.
\<close>

fun isClip :: "jsval \<Rightarrow> bool" where
  "isClip (JStr s) = (s \<noteq> [])"
| "isClip v = False"

definition clipRefs :: "player \<Rightarrow> bool" where
  "clipRefs p =
    ((js_get p 0 = JNull \<or> isClip (js_get p 0)) \<and> (js_get p 1 = JNull \<or> isClip (js_get p 1)))"

text \<open>
  A player array that is no longer in play: both recordings are there, or the first one
  has been cleared. In \<open>only_last_incomplete\<close> every player array but the last is so.
\<close>

definition finished :: "player \<Rightarrow> bool" where
  "finished p = ((js_get p 0 \<noteq> JNull \<and> js_get p 1 \<noteq> JNull) \<or> js_get p 0 = JNull)"

definition only_last_incomplete :: "gameState \<Rightarrow> bool" where
  "only_last_incomplete gameState = (\<forall>p \<in> set (butlast gameState). finished p)"

text \<open>
  The shape of the game states that the routes build: every player array has four
  cells, its file cells hold clip references or \<open>null\<close>, and all but the last are
  finished.
\<close>

definition slotOk :: "player \<Rightarrow> bool" where
  "slotOk p = (length p = 4 \<and> clipRefs p)"

definition wellFormed :: "gameState \<Rightarrow> bool" where
  "wellFormed gameState =
    ((\<forall>p \<in> set gameState. slotOk p) \<and> (\<forall>p \<in> set (butlast gameState). finished p))"

text \<open>A request with an audio payload, and an environment in which the write succeeds.\<close>

definition aliceRequest :: request where
  "aliceRequest = \<lparr>audioData = JStr ''UklGRg=='', mimeType = JStr ''audio/wav'', playerName = JStr ''Alice''\<rparr>"

definition envAt :: "int \<Rightarrow> env" where
  "envAt t = \<lparr>statusClock = t, idClock = t, random = 7, writeOk = True, stampClock = t\<rparr>"

section \<open>The game state file\<close>

text \<open>
  The shared-state server keeps the game state in \<open>game-state.json\<close>: it writes
  \<open>JSON.stringify(sharedGameState, null, 2)\<close> and reads with \<open>JSON.parse(data)\<close>. Both are
  functions of the language; what follows models them on game states, from their
  definition in the language standard. A string is the list of the bytes of its UTF-8
  form, as in the file.
\<close>

subsection \<open>\<open>JSON.stringify\<close> with an indentation of two spaces\<close>

definition hexDigit :: "nat \<Rightarrow> char" where
  "hexDigit d = (if d < 10 then char_of (48 + d) else char_of (87 + d))"

text \<open>
  One character of a quoted string: the short escapes, \<open>\u00xx\<close> for the other control
  characters, and the character itself otherwise. (\<open>CHR 0x22\<close> is the double quote,
  \<open>CHR 0x5C\<close> the backslash.)
\<close>

definition quoteChar :: "char \<Rightarrow> string" where
  "quoteChar c =
    (if c = CHR 0x08 then [CHR 0x5C, CHR ''b'']
     else if c = CHR 0x09 then [CHR 0x5C, CHR ''t'']
     else if c = CHR 0x0A then [CHR 0x5C, CHR ''n'']
     else if c = CHR 0x0C then [CHR 0x5C, CHR ''f'']
     else if c = CHR 0x0D then [CHR 0x5C, CHR ''r'']
     else if c = CHR 0x22 then [CHR 0x5C, CHR 0x22]
     else if c = CHR 0x5C then [CHR 0x5C, CHR 0x5C]
     else if (of_char c :: nat) < 32 then
       [CHR 0x5C, CHR ''u'', CHR ''0'', CHR ''0'',
        hexDigit (of_char c div 16), hexDigit (of_char c mod 16)]
     else [c])"

definition quoteJSONString :: "string \<Rightarrow> string" where
  "quoteJSONString s = CHR 0x22 # concat (map quoteChar s) @ [CHR 0x22]"

text \<open>A cell of a player array: \<open>undefined\<close> in an array is written as \<open>null\<close>.\<close>

fun serializeCell :: "jsval \<Rightarrow> string" where
  "serializeCell JUndefined = ''null''"
| "serializeCell JNull = ''null''"
| "serializeCell (JBool b) = (if b then ''true'' else ''false'')"
| "serializeCell (JNum n) = dec_int n"
| "serializeCell (JStr s) = quoteJSONString s"

fun join :: "string \<Rightarrow> string list \<Rightarrow> string" where
  "join sep [] = []"
| "join sep [x] = x"
| "join sep (x # y # ys) = x @ sep @ join sep (y # ys)"

text \<open>
  An array whose elements are already serialized, at the indentation \<open>stepback\<close>: \<open>[]\<close>
  when it is empty, and otherwise one element on each line, two spaces further in.
\<close>

definition serializeJSONArray :: "string \<Rightarrow> string list \<Rightarrow> string" where
  "serializeJSONArray stepback partial =
    (let indent = stepback @ ''  '' in
     if partial = [] then ''[]''
     else ''['' @ [CHR 0x0A] @ indent @ join ('','' @ [CHR 0x0A] @ indent) partial
          @ [CHR 0x0A] @ stepback @ '']'')"

definition JSON_stringify :: "gameState \<Rightarrow> string" where
  "JSON_stringify gameState =
    serializeJSONArray [] (map (\<lambda>p. serializeJSONArray ''  '' (map serializeCell p)) gameState)"

subsection \<open>\<open>JSON.parse\<close> on the texts of game states\<close>

text \<open>
  \<open>JSON_parse\<close> reads the JSON texts of arrays of arrays of \<open>null\<close>, booleans, integers
  and strings, with white space wherever JSON has it. It gives \<open>None\<close> for every other
  text: one that is not JSON, for which \<open>JSON.parse\<close> throws, and one that is JSON for
  another value (an object, a deeper array, a fraction, an integer beyond the safe
  integers, a character escape beyond \<open>\u007f\<close>).
\<close>

definition is_ws :: "char \<Rightarrow> bool" where
  "is_ws c = (c = CHR '' '' \<or> c = CHR 0x09 \<or> c = CHR 0x0A \<or> c = CHR 0x0D)"

definition skip_ws :: "string \<Rightarrow> string" where
  "skip_ws s = dropWhile is_ws s"

definition is_digit :: "char \<Rightarrow> bool" where
  "is_digit c = (48 \<le> (of_char c :: int) \<and> (of_char c :: int) \<le> 57)"

definition digitsValue :: "string \<Rightarrow> int" where
  "digitsValue ds = foldl (\<lambda>n c. 10 * n + (of_char c - 48)) 0 ds"

definition maxSafeInteger :: int where
  "maxSafeInteger = 2 ^ 53 - 1"

text \<open>
  A number: an optional minus sign and digits without a leading zero. A fraction or an
  exponent after them, and a value beyond the safe integers, are not read.
\<close>

definition parseDigits :: "bool \<Rightarrow> string \<Rightarrow> (jsval \<times> string) option" where
  "parseDigits negative s =
    (let ds = takeWhile is_digit s;
         rest = dropWhile is_digit s
     in if ds = [] then None
        else if length ds > 1 \<and> hd ds = CHR ''0'' then None
        else if rest \<noteq> [] \<and> (hd rest = CHR ''.'' \<or> hd rest = CHR ''e'' \<or> hd rest = CHR ''E'') then None
        else if digitsValue ds > maxSafeInteger then None
        else Some (JNum (if negative then - digitsValue ds else digitsValue ds), rest))"

definition parseNumber :: "string \<Rightarrow> (jsval \<times> string) option" where
  "parseNumber s =
    (if s \<noteq> [] \<and> hd s = CHR ''-'' then parseDigits True (tl s) else parseDigits False s)"

definition hexValue :: "char \<Rightarrow> nat option" where
  "hexValue c =
    (let n = (of_char c :: nat) in
     if 48 \<le> n \<and> n \<le> 57 then Some (n - 48)
     else if 97 \<le> n \<and> n \<le> 102 then Some (n - 87)
     else if 65 \<le> n \<and> n \<le> 70 then Some (n - 55)
     else None)"

definition unescape :: "char \<Rightarrow> char option" where
  "unescape e =
    (if e = CHR 0x22 then Some (CHR 0x22)
     else if e = CHR 0x5C then Some (CHR 0x5C)
     else if e = CHR ''/'' then Some (CHR ''/'')
     else if e = CHR ''b'' then Some (CHR 0x08)
     else if e = CHR ''f'' then Some (CHR 0x0C)
     else if e = CHR ''n'' then Some (CHR 0x0A)
     else if e = CHR ''r'' then Some (CHR 0x0D)
     else if e = CHR ''t'' then Some (CHR 0x09)
     else None)"

definition unicodeEscape :: "char \<Rightarrow> char \<Rightarrow> char \<Rightarrow> char \<Rightarrow> char option" where
  "unicodeEscape a b c d =
    (case (hexValue a, hexValue b, hexValue c, hexValue d) of
       (Some x, Some y, Some z, Some w) \<Rightarrow>
         (let v = ((x * 16 + y) * 16 + z) * 16 + w in
          if v < 128 then Some (char_of v) else None)
     | _ \<Rightarrow> None)"

definition consChar :: "char \<Rightarrow> (string \<times> string) option \<Rightarrow> (string \<times> string) option" where
  "consChar c r = map_option (\<lambda>(s, rest). (c # s, rest)) r"

text \<open>The characters of a string after its opening quote, up to the closing one.\<close>

fun parseChars :: "string \<Rightarrow> (string \<times> string) option" where
  "parseChars [] = None"
| "parseChars (c # cs) =
    (if c = CHR 0x22 then Some ([], cs)
     else if c = CHR 0x5C then
       (case cs of
          [] \<Rightarrow> None
        | e # cs1 \<Rightarrow>
            if e = CHR ''u'' then
              (case cs1 of
                 a # b # x # y # cs2 \<Rightarrow>
                   (case unicodeEscape a b x y of
                      None \<Rightarrow> None
                    | Some ch \<Rightarrow> consChar ch (parseChars cs2))
               | _ \<Rightarrow> None)
            else
              (case unescape e of
                 None \<Rightarrow> None
               | Some ch \<Rightarrow> consChar ch (parseChars cs1)))
     else if (of_char c :: nat) < 32 then None
     else consChar c (parseChars cs))"

definition parseCell :: "string \<Rightarrow> (jsval \<times> string) option" where
  "parseCell s =
    (if take 4 s = ''null'' then Some (JNull, drop 4 s)
     else if take 4 s = ''true'' then Some (JBool True, drop 4 s)
     else if take 5 s = ''false'' then Some (JBool False, drop 5 s)
     else if s \<noteq> [] \<and> hd s = CHR 0x22 then
       map_option (\<lambda>(str, rest). (JStr str, rest)) (parseChars (tl s))
     else parseNumber s)"

text \<open>
  The elements of an array after its opening bracket, each read by \<open>p\<close>, up to the
  closing bracket. The test on the lengths holds whenever \<open>p\<close> returns a rest of what
  it was given, as the parsers here do; with it the recursion ends for every \<open>p\<close>.
\<close>

function parseElements ::
  "(string \<Rightarrow> ('a \<times> string) option) \<Rightarrow> string \<Rightarrow> ('a list \<times> string) option" where
  "parseElements p s =
    (case p (skip_ws s) of
       None \<Rightarrow> None
     | Some (v, r) \<Rightarrow>
         (case skip_ws r of
            [] \<Rightarrow> None
          | c # r1 \<Rightarrow>
              if c = CHR '']'' then Some ([v], r1)
              else if c = CHR '','' \<and> length r1 < length s then
                map_option (\<lambda>(vs, rest). (v # vs, rest)) (parseElements p r1)
              else None))"
  by pat_completeness auto
termination
  by (relation "measure (\<lambda>(p, s). length s)") auto

declare parseElements.simps [simp del]

definition parseArray ::
  "(string \<Rightarrow> ('a \<times> string) option) \<Rightarrow> string \<Rightarrow> ('a list \<times> string) option" where
  "parseArray p s =
    (if s \<noteq> [] \<and> hd s = CHR ''['' then
       (if skip_ws (tl s) \<noteq> [] \<and> hd (skip_ws (tl s)) = CHR '']''
        then Some ([], tl (skip_ws (tl s)))
        else parseElements p (tl s))
     else None)"

definition JSON_parse :: "string \<Rightarrow> gameState option" where
  "JSON_parse text =
    (case parseArray (parseArray parseCell) (skip_ws text) of
       None \<Rightarrow> None
     | Some (gameState, rest) \<Rightarrow> if skip_ws rest = [] then Some gameState else None)"

subsection \<open>Saving and loading\<close>

text \<open>
  The file is \<open>None\<close> when it does not exist, and its text otherwise. \<open>saveGameState\<close>
  writes the text of the game state; when the write throws (\<open>writes = False\<close>), the
  error is logged and the file is as before. \<open>loadGameState\<close> keeps the game state when
  there is no file, and otherwise takes what \<open>JSON.parse\<close> gives; \<open>None\<close> stands for its
  outcome on the texts that \<open>JSON_parse\<close> does not read (the empty game state when
  \<open>JSON.parse\<close> throws, another value otherwise).
\<close>

definition saveGameState :: "bool \<Rightarrow> gameState \<Rightarrow> string option \<Rightarrow> string option" where
  "saveGameState writes sharedGameState file =
    (if writes then Some (JSON_stringify sharedGameState) else file)"

definition loadGameState :: "string option \<Rightarrow> gameState \<Rightarrow> gameState option" where
  "loadGameState file sharedGameState =
    (case file of
       None \<Rightarrow> Some sharedGameState
     | Some data \<Rightarrow> JSON_parse data)"

text \<open>
  The cells that the file holds as they are: every value but \<open>undefined\<close>, numbers within
  the safe integers (the integers that the numbers of the language tell apart, and
  print with all their digits).
\<close>

fun storable :: "jsval \<Rightarrow> bool" where
  "storable JUndefined = False"
| "storable (JNum n) = (\<bar>n\<bar> \<le> maxSafeInteger)"
| "storable v = True"

subsection \<open>The shape of the text of a game state\<close>

text \<open>
  What follows a cell or a player array in the text of a game state: a comma or a line
  feed.
\<close>

definition afterValue :: "string \<Rightarrow> bool" where
  "afterValue r = (r \<noteq> [] \<and> (hd r = CHR '','' \<or> hd r = CHR 0x0A))"

text \<open>The first character of a serialized cell, as far as the parser looks at it.\<close>

definition cellStart :: "char \<Rightarrow> bool" where
  "cellStart c = (c = CHR ''n'' \<or> c = CHR ''t'' \<or> c = CHR ''f'' \<or> c = CHR 0x22 \<or> c = CHR ''-''
     \<or> is_digit c)"

section \<open>The status check\<close>

lemma js_get_JNum_length: "js_get p i = JNum t \<Longrightarrow> i < length p"
  by (auto simp: js_get_def split: if_splits)

lemma update_last: "gs \<noteq> [] \<Longrightarrow> gs[length gs - 1 := x] = butlast gs @ [x]"
  by (induction gs) (auto split: nat.splits)

lemma isClip_imp_truthy: "isClip v \<Longrightarrow> truthy v"
  by (cases v) auto

lemma ref_truthy: "v = JNull \<or> isClip v \<Longrightarrow> truthy v = (v \<noteq> JNull)"
  by (cases v) auto

text \<open>The status check never changes the number of player arrays.\<close>

lemma status_length: "length (snd (getCurrentPlayerStatus toNum now gs)) = length gs"
  by (simp add: getCurrentPlayerStatus_def Let_def)

text \<open>
  It leaves the game state as it is, or (on a timeout) clears cells 0 and 3 of the last
  player array.
\<close>

lemma status_state:
  "snd (getCurrentPlayerStatus toNum now gs) = gs \<or>
   (gs \<noteq> [] \<and> 4 \<le> length (last gs) \<and> truthy (js_get (last gs) 0) \<and>
    \<not> truthy (js_get (last gs) 1) \<and>
    isNewPlayer (fst (getCurrentPlayerStatus toNum now gs)) \<and>
    snd (getCurrentPlayerStatus toNum now gs) = butlast gs @ [(last gs)[0 := JNull, 3 := JNull]])"
proof (cases "gs = []")
  case True
  then show ?thesis by (simp add: getCurrentPlayerStatus_def)
next
  case False
  then show ?thesis
    by (auto simp add: getCurrentPlayerStatus_def Let_def last_conv_nth
          update_last [symmetric] js_set_def)
qed

lemma status_no_first_unchanged:
  "\<not> canRecordFirst (fst (getCurrentPlayerStatus toNum now gs)) \<Longrightarrow>
     snd (getCurrentPlayerStatus toNum now gs) = gs"
  by (auto simp add: getCurrentPlayerStatus_def Let_def split: if_splits)

lemma status_second_unchanged:
  "canRecordSecond (fst (getCurrentPlayerStatus toNum now gs)) \<Longrightarrow>
     snd (getCurrentPlayerStatus toNum now gs) = gs \<and> gs \<noteq> [] \<and> 4 \<le> length (last gs)"
  by (cases "gs = []")
     (auto simp add: getCurrentPlayerStatus_def Let_def last_conv_nth split: if_splits)

text \<open>The flags of the status depend on each other.\<close>

lemma status_flags:
  "needsSecondFile (fst (getCurrentPlayerStatus toNum now gs)) =
     canRecordSecond (fst (getCurrentPlayerStatus toNum now gs))"
  "isNewPlayer (fst (getCurrentPlayerStatus toNum now gs)) \<Longrightarrow>
     canRecordFirst (fst (getCurrentPlayerStatus toNum now gs))"
  "canRecordSecond (fst (getCurrentPlayerStatus toNum now gs)) \<Longrightarrow>
     \<not> canRecordFirst (fst (getCurrentPlayerStatus toNum now gs))"
  by (simp_all add: getCurrentPlayerStatus_def Let_def split: if_splits)

section \<open>Routes and turn engine\<close>

text \<open>
  With an audio payload and a mime type that are strings and a successful write, a
  route of the shared-state server is the turn engine applied to the generated file
  name.
\<close>

lemma record_first_audio_engine:
  assumes "audioData req = JStr audio" "audio \<noteq> []" "mimeType req = JStr mime" "writeOk e"
  shows "record_first_audio toNum e req gs =
     recordFirst toNum (statusClock e) (stampClock e)
       (fileName (int (length gs)) 1 e mime) (playerName req) gs"
proof (cases "getCurrentPlayerStatus toNum (statusClock e) gs")
  case (Pair st g)
  with status_length [of toNum "statusClock e" gs] have "length g = length gs" by simp
  with Pair assms show ?thesis
    by (simp add: record_first_audio_def recordFirst_def Let_def)
qed

lemma record_second_audio_engine:
  assumes "audioData req = JStr audio" "audio \<noteq> []" "mimeType req = JStr mime" "writeOk e"
  shows "record_second_audio toNum e req gs =
     recordSecond toNum (statusClock e)
       (fileName (int (length gs) - 1) 2 e mime) (playerName req) gs"
proof (cases "getCurrentPlayerStatus toNum (statusClock e) gs")
  case (Pair st g)
  with status_length [of toNum "statusClock e" gs] have "length g = length gs" by simp
  with Pair assms show ?thesis
    by (simp add: record_second_audio_def recordSecond_def Let_def)
qed

text \<open>
  The first route of the shared-state server turns a request down for the status
  exactly when \<open>canRecordFirst\<close> is false, and otherwise pushes one player array.
\<close>

lemma recordFirst_rejects_iff:
  "(fst (recordFirst toNum now stamp f name gs) = BadRequest ''Not ready to record first audio'')
     = (\<not> canRecordFirst (fst (getCurrentPlayerStatus toNum now gs)))"
  by (simp add: recordFirst_def split: prod.splits)

lemma recordFirst_pushes:
  assumes "canRecordFirst (fst (getCurrentPlayerStatus toNum now gs))"
  shows "recordFirst toNum now stamp f name gs =
     (Success f, snd (getCurrentPlayerStatus toNum now gs)
                   @ [newPlayer ''Spieler'' f name (length gs) stamp])"
proof (cases "getCurrentPlayerStatus toNum now gs")
  case (Pair st g)
  with status_length [of toNum now gs] have "length g = length gs" by simp
  with Pair assms show ?thesis by (simp add: recordFirst_def)
qed

text \<open>The second routes of the two servers test flags that are always equal.\<close>

lemma recordSecond_session_eq:
  "recordSecond_session toNum now f name gs =
     (case recordSecond toNum now f name gs of
        (BadRequest m, g) \<Rightarrow> (BadRequest ''Not ready for second file'', g)
      | r \<Rightarrow> r)"
proof (cases "getCurrentPlayerStatus toNum now gs")
  case (Pair st g)
  with status_flags(1) [of toNum now gs] have "needsSecondFile st = canRecordSecond st" by simp
  with Pair show ?thesis by (simp add: recordSecond_def recordSecond_session_def)
qed

text \<open>The routes of the session server, likewise, on the game state of the session.\<close>

lemma record_first_audio_session_engine:
  assumes "audioData req = JStr audio" "audio \<noteq> []" "mimeType req = JStr mime" "writeOk e"
  shows "record_first_audio_session toNum e req session =
     (case recordFirst_session toNum (statusClock e) (stampClock e)
             (fileName (int (length (initializeGameState session))) 1 e mime) (playerName req)
             (initializeGameState session)
      of (r, g) \<Rightarrow> (r, Some g))"
proof (cases "getCurrentPlayerStatus toNum (statusClock e) (initializeGameState session)")
  case (Pair st g)
  with status_length [of toNum "statusClock e" "initializeGameState session"]
  have "length g = length (initializeGameState session)" by simp
  with Pair assms show ?thesis
    by (simp add: record_first_audio_session_def recordFirst_session_def Let_def)
qed

lemma record_second_audio_session_engine:
  assumes "audioData req = JStr audio" "audio \<noteq> []" "mimeType req = JStr mime" "writeOk e"
  shows "record_second_audio_session toNum e req session =
     (case recordSecond_session toNum (statusClock e)
             (fileName (int (length (initializeGameState session)) - 1) 2 e mime) (playerName req)
             (initializeGameState session)
      of (r, g) \<Rightarrow> (r, Some g))"
proof (cases "getCurrentPlayerStatus toNum (statusClock e) (initializeGameState session)")
  case (Pair st g)
  with status_length [of toNum "statusClock e" "initializeGameState session"]
  have "length g = length (initializeGameState session)" by simp
  with Pair assms show ?thesis
    by (simp add: record_second_audio_session_def recordSecond_session_def Let_def)
qed

text \<open>
  After a first recording under a name that no player array holds yet, exactly one
  player array holds it as its first recording: the one that was pushed.
\<close>

lemma recordFirst_one_holder:
  assumes "canRecordFirst (fst (getCurrentPlayerStatus toNum now gs))"
    and "\<forall>p \<in> set gs. js_get p 0 \<noteq> JStr f"
  shows "filter (\<lambda>p. js_get p 0 = JStr f) (snd (recordFirst toNum now stamp f name gs))
     = [newPlayer ''Spieler'' f name (length gs) stamp]"
proof -
  let ?g = "snd (getCurrentPlayerStatus toNum now gs)"
  have old: "\<forall>p \<in> set ?g. js_get p 0 \<noteq> JStr f"
  proof -
    from status_state [of toNum now gs] show ?thesis
    proof
      assume "?g = gs"
      with assms(2) show ?thesis by simp
    next
      assume a: "gs \<noteq> [] \<and> 4 \<le> length (last gs) \<and> truthy (js_get (last gs) 0) \<and>
        \<not> truthy (js_get (last gs) 1) \<and>
        isNewPlayer (fst (getCurrentPlayerStatus toNum now gs)) \<and>
        ?g = butlast gs @ [(last gs)[0 := JNull, 3 := JNull]]"
      then have "4 \<le> length (last gs)" by simp
      then have "0 < length (last gs)" by arith
      then have "js_get ((last gs)[0 := JNull, 3 := JNull]) 0 = JNull"
        by (simp add: js_get_def nth_list_update)
      moreover have "\<forall>p \<in> set (butlast gs). js_get p 0 \<noteq> JStr f"
        using assms(2) by (auto dest: in_set_butlastD)
      ultimately show ?thesis using a by auto
    qed
  qed
  then have "filter (\<lambda>p. js_get p 0 = JStr f) ?g = []" by (simp add: filter_empty_conv)
  moreover have "js_get (newPlayer ''Spieler'' f name (length gs) stamp) 0 = JStr f"
    by (simp add: newPlayer_def js_get_def)
  ultimately show ?thesis
    by (simp add: recordFirst_pushes [OF assms(1)])
qed

section \<open>Recording a first clip\<close>

text \<open>
  C1. When the status permits a first recording and the last player array is a
  reclaimed one (both file cells \<open>null\<close>), the claim has the first route fill that array
  in place, so that the game state keeps its length. The routes do otherwise: they
  always push. From the one reclaimed array the shared-state server goes to two
  arrays, the reclaimed one still there with its cells cleared; and from a timed-out
  array both servers clear it and push behind it. In each case exactly one array, the
  new last one, holds the new file name (in general: \<open>recordFirst_one_holder\<close>). The
  status of the reclaimed array numbers the player who may record as 1, the position of
  that array.
\<close>

theorem C1_reclaimed_slot_is_not_reused:
  "recordFirst toNum now stamp ''c.wav'' (JStr ''Bob'') [[JNull, JNull, JStr ''Alice'', JNull]]
     = (Success ''c.wav'',
        [[JNull, JNull, JStr ''Alice'', JNull], [JStr ''c.wav'', JNull, JStr ''Bob'', JNum stamp]])
   \<and> recordFirst toNum 121001 stamp ''c.wav'' (JStr ''Bob'')
         [[JStr ''a.wav'', JNull, JStr ''Alice'', JNum 1]]
     = (Success ''c.wav'',
        [[JNull, JNull, JStr ''Alice'', JNull], [JStr ''c.wav'', JNull, JStr ''Bob'', JNum stamp]])
   \<and> recordFirst_session toNum 121001 stamp ''c.wav'' (JStr ''Bob'')
         [[JStr ''a.wav'', JNull, JStr ''Alice'', JNum 1]]
     = (Success ''c.wav'',
        [[JNull, JNull, JStr ''Alice'', JNull], [JStr ''c.wav'', JNull, JStr ''Bob'', JNum stamp]])
   \<and> fst (getCurrentPlayerStatus toNum now [[JNull, JNull, JStr ''Alice'', JNull]])
     = \<lparr>isNewPlayer = False, playerNumber = 1, needsSecondFile = False,
        canRecordFirst = True, canRecordSecond = False, isRecording = False\<rparr>"
  by (simp add: recordFirst_def recordFirst_session_def getCurrentPlayerStatus_def Let_def
        js_get_def js_set_def newPlayer_def twoMinutes_def)

text \<open>
  C3. With an audio payload, the claim has the first route turn a request down exactly
  when \<open>canRecordFirst\<close> of the recomputed status is false. The shared-state server does
  so (\<open>recordFirst_rejects_iff\<close>, \<open>recordFirst_pushes\<close>). The session server tests
  \<open>isNewPlayer\<close> instead: once a status check has reclaimed the last player array, the
  status says \<open>canRecordFirst\<close> and the route answers 400, whatever the clock.
\<close>

theorem C3_session_route_rejects_permitted_first:
  "canRecordFirst (fst (getCurrentPlayerStatus toNum (statusClock (envAt t))
      [[JNull, JNull, JStr ''Alice'', JNull]]))
   \<and> truthy (audioData aliceRequest)
   \<and> record_first_audio_session toNum (envAt t) aliceRequest
        (Some [[JNull, JNull, JStr ''Alice'', JNull]])
     = (BadRequest ''Not ready for new player'', Some [[JNull, JNull, JStr ''Alice'', JNull]])
   \<and> snd (getCurrentPlayerStatus toNum 121001 [[JStr ''a.wav'', JNull, JStr ''Alice'', JNum 1]])
     = [[JNull, JNull, JStr ''Alice'', JNull]]"
  by (simp add: record_first_audio_session_def initializeGameState_def getCurrentPlayerStatus_def
        Let_def js_get_def js_set_def aliceRequest_def envAt_def twoMinutes_def)

section \<open>Scenarios\<close>

text \<open>
  C7. From the empty game state, a first recording \<open>a.wav\<close> by Alice at clock 0 gives
  the one player array \<open>[a.wav, null, Alice, 0]\<close>, for which the status (at any clock)
  permits the second recording only, as player 1; the second recording \<open>b.wav\<close> at
  clock 1000 then gives \<open>[a.wav, b.wav, Alice, null]\<close>, for which the status permits a
  new player to record first, as player 2. Both servers agree on it.
\<close>

theorem C7_first_then_second:
  "recordFirst toNum 0 0 ''a.wav'' (JStr ''Alice'') []
     = (Success ''a.wav'', [[JStr ''a.wav'', JNull, JStr ''Alice'', JNum 0]])
   \<and> getCurrentPlayerStatus toNum now [[JStr ''a.wav'', JNull, JStr ''Alice'', JNum 0]]
     = (\<lparr>isNewPlayer = False, playerNumber = 1, needsSecondFile = True,
         canRecordFirst = False, canRecordSecond = True, isRecording = False\<rparr>,
        [[JStr ''a.wav'', JNull, JStr ''Alice'', JNum 0]])
   \<and> recordSecond toNum 1000 ''b.wav'' (JStr ''Alice'')
        [[JStr ''a.wav'', JNull, JStr ''Alice'', JNum 0]]
     = (Success ''b.wav'', [[JStr ''a.wav'', JStr ''b.wav'', JStr ''Alice'', JNull]])
   \<and> getCurrentPlayerStatus toNum now' [[JStr ''a.wav'', JStr ''b.wav'', JStr ''Alice'', JNull]]
     = (\<lparr>isNewPlayer = True, playerNumber = 2, needsSecondFile = False,
         canRecordFirst = True, canRecordSecond = False, isRecording = False\<rparr>,
        [[JStr ''a.wav'', JStr ''b.wav'', JStr ''Alice'', JNull]])
   \<and> recordFirst_session toNum 0 0 ''a.wav'' (JStr ''Alice'') []
     = (Success ''a.wav'', [[JStr ''a.wav'', JNull, JStr ''Alice'', JNum 0]])
   \<and> recordSecond_session toNum 1000 ''b.wav'' (JStr ''Alice'')
        [[JStr ''a.wav'', JNull, JStr ''Alice'', JNum 0]]
     = (Success ''b.wav'', [[JStr ''a.wav'', JStr ''b.wav'', JStr ''Alice'', JNull]])"
  by (simp add: recordFirst_def recordSecond_def recordFirst_session_def recordSecond_session_def
        getCurrentPlayerStatus_def Let_def js_get_def js_set_def newPlayer_def setSecond_def)

text \<open>
  C2. The claim has the status check at clock 121000 reclaim the player array
  \<open>[a.wav, null, Alice, 0]\<close>. It does not: the check starts with
  \<open>recordingStartTime &&\<close>, under which the time stamp 0 counts as no time stamp, so
  that the array is left alone and the second recording stays permitted.
\<close>

theorem C2_time_stamp_zero_never_times_out:
  "getCurrentPlayerStatus noNumber 121000 [[JStr ''a.wav'', JNull, JStr ''Alice'', JNum 0]]
     = (\<lparr>isNewPlayer = False, playerNumber = 1, needsSecondFile = True,
         canRecordFirst = False, canRecordSecond = True, isRecording = False\<rparr>,
        [[JStr ''a.wav'', JNull, JStr ''Alice'', JNum 0]])
   \<and> snd (getCurrentPlayerStatus noNumber 121000 [[JStr ''a.wav'', JNull, JStr ''Alice'', JNum 0]])
     \<noteq> [[JNull, JNull, JStr ''Alice'', JNull]]
   \<and> \<not> canRecordFirst
        (fst (getCurrentPlayerStatus noNumber 121000 [[JStr ''a.wav'', JNull, JStr ''Alice'', JNum 0]]))"
  by (simp add: getCurrentPlayerStatus_def Let_def js_get_def)

text \<open>
  C2, amended. For the player array \<open>[a.wav, null, Alice, t]\<close> with a time stamp \<open>t\<close>
  other than 0, the status check at a clock more than 120000 ms after \<open>t\<close> reclaims the
  array: the game state becomes \<open>[null, null, Alice, null]\<close>, of the same length, and
  the status permits a new player to record first, as player 1.
\<close>

theorem C2_timeout_reclaims:
  assumes "t \<noteq> 0" "now - t > 120000"
  shows "getCurrentPlayerStatus toNum now [[JStr ''a.wav'', JNull, JStr ''Alice'', JNum t]]
     = (\<lparr>isNewPlayer = True, playerNumber = 1, needsSecondFile = False,
         canRecordFirst = True, canRecordSecond = False, isRecording = False\<rparr>,
        [[JNull, JNull, JStr ''Alice'', JNull]])"
  using assms
  by (simp add: getCurrentPlayerStatus_def Let_def js_get_def js_set_def twoMinutes_def)

theorem C2_timeout_reclaims_witness:
  "(1::int) \<noteq> 0 \<and> (121001::int) - 1 > 120000
   \<and> getCurrentPlayerStatus noNumber 121001 [[JStr ''a.wav'', JNull, JStr ''Alice'', JNum 1]]
     = (\<lparr>isNewPlayer = True, playerNumber = 1, needsSecondFile = False,
         canRecordFirst = True, canRecordSecond = False, isRecording = False\<rparr>,
        [[JNull, JNull, JStr ''Alice'', JNull]])"
  using C2_timeout_reclaims [of 1 121001 noNumber] by simp

section \<open>The status within the timeout\<close>

text \<open>
  C8. When the last player array has a first recording, no second recording and a
  time stamp \<open>t\<close> with \<open>now - t \<le> 120000\<close>, the status permits the second recording
  (\<open>canRecordSecond\<close> and \<open>needsSecondFile\<close>) and not the first, the player number is the
  length of the game state, and the status check leaves the game state as it is.
\<close>

theorem C8_within_timeout:
  assumes "gs \<noteq> []"
    and "truthy (js_get (last gs) 0)" and "\<not> truthy (js_get (last gs) 1)"
    and "js_get (last gs) 3 = JNum t" and "now - t \<le> 120000"
  shows "getCurrentPlayerStatus toNum now gs =
     (\<lparr>isNewPlayer = False, playerNumber = length gs, needsSecondFile = True,
       canRecordFirst = False, canRecordSecond = True, isRecording = False\<rparr>, gs)"
proof -
  have "3 < length (last gs)" using assms(4) by (rule js_get_JNum_length)
  then show ?thesis using assms
    by (simp add: getCurrentPlayerStatus_def Let_def last_conv_nth twoMinutes_def)
qed

theorem C8_within_timeout_witness:
  "[[JStr ''a.wav'', JNull, JStr ''Alice'', JNum 5000]] \<noteq> []
   \<and> truthy (js_get (last [[JStr ''a.wav'', JNull, JStr ''Alice'', JNum 5000]]) 0)
   \<and> \<not> truthy (js_get (last [[JStr ''a.wav'', JNull, JStr ''Alice'', JNum 5000]]) 1)
   \<and> js_get (last [[JStr ''a.wav'', JNull, JStr ''Alice'', JNum 5000]]) 3 = JNum 5000
   \<and> (125000::int) - 5000 \<le> 120000
   \<and> getCurrentPlayerStatus noNumber 125000 [[JStr ''a.wav'', JNull, JStr ''Alice'', JNum 5000]] =
     (\<lparr>isNewPlayer = False, playerNumber = 1, needsSecondFile = True,
       canRecordFirst = False, canRecordSecond = True, isRecording = False\<rparr>,
      [[JStr ''a.wav'', JNull, JStr ''Alice'', JNum 5000]])"
  using C8_within_timeout [of "[[JStr ''a.wav'', JNull, JStr ''Alice'', JNum 5000]]" 5000 125000 noNumber]
  by (simp add: js_get_def)

section \<open>Exactly one recording is permitted\<close>

text \<open>
  C10. When every player array has four cells, the status permits exactly one of the
  first and the second recording, \<open>needsSecondFile\<close> equals \<open>canRecordSecond\<close>, and the
  status is not the one of the last branch of the status check, in which nothing is
  permitted.
\<close>

theorem C10_exactly_one_permission:
  assumes "\<forall>p \<in> set gs. length p = 4"
  shows "(canRecordFirst (fst (getCurrentPlayerStatus toNum now gs))
            \<noteq> canRecordSecond (fst (getCurrentPlayerStatus toNum now gs)))
    \<and> needsSecondFile (fst (getCurrentPlayerStatus toNum now gs))
        = canRecordSecond (fst (getCurrentPlayerStatus toNum now gs))
    \<and> fst (getCurrentPlayerStatus toNum now gs)
        \<noteq> \<lparr>isNewPlayer = False, playerNumber = length gs, needsSecondFile = False,
            canRecordFirst = False, canRecordSecond = False, isRecording = False\<rparr>"
proof (cases "gs = []")
  case True
  then show ?thesis by (simp add: getCurrentPlayerStatus_def)
next
  case False
  then have "length (last gs) = 4" using assms by simp
  then show ?thesis using False
    by (simp add: getCurrentPlayerStatus_def Let_def last_conv_nth)
qed

theorem C10_exactly_one_permission_witness:
  "list_all (\<lambda>p. length p = 4)
      [[JStr ''a.wav'', JStr ''b.wav'', JStr ''Alice'', JNull],
       [JStr ''c.wav'', JNull, JStr ''Bob'', JNum 7]]
   \<and> \<not> canRecordFirst (fst (getCurrentPlayerStatus noNumber 9
         [[JStr ''a.wav'', JStr ''b.wav'', JStr ''Alice'', JNull],
          [JStr ''c.wav'', JNull, JStr ''Bob'', JNum 7]]))
   \<and> canRecordSecond (fst (getCurrentPlayerStatus noNumber 9
         [[JStr ''a.wav'', JStr ''b.wav'', JStr ''Alice'', JNull],
          [JStr ''c.wav'', JNull, JStr ''Bob'', JNum 7]]))
   \<and> needsSecondFile (fst (getCurrentPlayerStatus noNumber 9
         [[JStr ''a.wav'', JStr ''b.wav'', JStr ''Alice'', JNull],
          [JStr ''c.wav'', JNull, JStr ''Bob'', JNum 7]]))"
  using C10_exactly_one_permission
    [of "[[JStr ''a.wav'', JStr ''b.wav'', JStr ''Alice'', JNull],
          [JStr ''c.wav'', JNull, JStr ''Bob'', JNum 7]]" noNumber 9]
  by (simp add: getCurrentPlayerStatus_def Let_def js_get_def twoMinutes_def)

section \<open>Requests that are turned down\<close>

text \<open>
  C4. The claim has a recording that is turned down leave the game state untouched.
  For the second recording it does not hold: the route computes the status first, and
  the status check of a timed-out player array clears its first recording and its time
  stamp before the route answers 400.
\<close>

theorem C4_rejected_second_after_timeout_changes_state:
  "\<not> canRecordSecond
       (fst (getCurrentPlayerStatus noNumber 121001 [[JStr ''a.wav'', JNull, JStr ''Alice'', JNum 1]]))
   \<and> recordSecond noNumber 121001 ''b.wav'' (JStr ''Alice'')
        [[JStr ''a.wav'', JNull, JStr ''Alice'', JNum 1]]
     = (BadRequest ''Not ready to record second audio'', [[JNull, JNull, JStr ''Alice'', JNull]])
   \<and> snd (recordSecond noNumber 121001 ''b.wav'' (JStr ''Alice'')
        [[JStr ''a.wav'', JNull, JStr ''Alice'', JNum 1]])
     \<noteq> [[JStr ''a.wav'', JNull, JStr ''Alice'', JNum 1]]"
  by (simp add: recordSecond_def getCurrentPlayerStatus_def Let_def js_get_def js_set_def
        twoMinutes_def)

text \<open>
  C4, amended. A first recording that the status does not permit is turned down and
  leaves the game state as it was. A second recording that the status does not permit is
  turned down and leaves the game state as the status check leaves it: as it was, or,
  when the last player array had timed out, with cells 0 and 3 of that array cleared.
  Nothing else is written and no player array is added.
\<close>

theorem C4_rejection_leaves_status_state:
  "(\<not> canRecordFirst (fst (getCurrentPlayerStatus toNum now gs)) \<longrightarrow>
      recordFirst toNum now stamp f name gs = (BadRequest ''Not ready to record first audio'', gs))
   \<and> (\<not> canRecordSecond (fst (getCurrentPlayerStatus toNum now gs)) \<longrightarrow>
        recordSecond toNum now f name gs =
          (BadRequest ''Not ready to record second audio'', snd (getCurrentPlayerStatus toNum now gs))
        \<and> (snd (getCurrentPlayerStatus toNum now gs) = gs
           \<or> gs \<noteq> [] \<and> truthy (js_get (last gs) 0)
             \<and> snd (getCurrentPlayerStatus toNum now gs)
                 = butlast gs @ [(last gs)[0 := JNull, 3 := JNull]]))"
proof (cases "getCurrentPlayerStatus toNum now gs")
  case (Pair st g)
  have first: "g = gs" if "\<not> canRecordFirst st"
    using status_no_first_unchanged [of toNum now gs] that Pair by simp
  have second: "g = gs \<or> gs \<noteq> [] \<and> truthy (js_get (last gs) 0)
      \<and> g = butlast gs @ [(last gs)[0 := JNull, 3 := JNull]]"
    using status_state [of toNum now gs] Pair by auto
  show ?thesis
    using first second Pair by (auto simp: recordFirst_def recordSecond_def)
qed

theorem C4_rejection_leaves_status_state_witness:
  "\<not> canRecordFirst (fst (getCurrentPlayerStatus noNumber 9 [[JStr ''a.wav'', JNull, JStr ''Alice'', JNum 7]]))
   \<and> recordFirst noNumber 9 9 ''c.wav'' (JStr ''Bob'') [[JStr ''a.wav'', JNull, JStr ''Alice'', JNum 7]]
     = (BadRequest ''Not ready to record first audio'', [[JStr ''a.wav'', JNull, JStr ''Alice'', JNum 7]])
   \<and> \<not> canRecordSecond (fst (getCurrentPlayerStatus noNumber 9 [[JStr ''a.wav'', JStr ''b.wav'', JStr ''Alice'', JNull]]))
   \<and> recordSecond noNumber 9 ''c.wav'' (JStr ''Bob'') [[JStr ''a.wav'', JStr ''b.wav'', JStr ''Alice'', JNull]]
     = (BadRequest ''Not ready to record second audio'', [[JStr ''a.wav'', JStr ''b.wav'', JStr ''Alice'', JNull]])"
  using C4_rejection_leaves_status_state
      [of noNumber 9 "[[JStr ''a.wav'', JNull, JStr ''Alice'', JNum 7]]" 9 "''c.wav''" "JStr ''Bob''"]
    C4_rejection_leaves_status_state
      [of noNumber 9 "[[JStr ''a.wav'', JStr ''b.wav'', JStr ''Alice'', JNull]]" 9 "''c.wav''" "JStr ''Bob''"]
  by (simp add: getCurrentPlayerStatus_def Let_def js_get_def twoMinutes_def)

section \<open>Visible recordings of a game state\<close>

lemma visibleLoop_eq:
  "i \<le> length gs \<Longrightarrow> visibleLoop gs i acc = acc @ map (playerFilesAt gs) [i..<length gs]"
proof (induction gs i acc rule: visibleLoop.induct)
  case (1 gameState i visibleFiles)
  show ?case
  proof (cases "i < length gameState")
    case True
    then have "visibleLoop gameState i visibleFiles
        = visibleLoop gameState (i + 1) (visibleFiles @ [playerFilesAt gameState i])"
      by (subst visibleLoop.simps) simp
    also have "\<dots> = (visibleFiles @ [playerFilesAt gameState i])
        @ map (playerFilesAt gameState) [i + 1..<length gameState]"
      using True by (intro "1.IH") simp_all
    also have "\<dots> = visibleFiles @ map (playerFilesAt gameState) [i..<length gameState]"
      using True by (simp add: upt_conv_Cons)
    finally show ?thesis .
  next
    case False
    with "1.prems" have "i = length gameState" by simp
    then show ?thesis by (subst visibleLoop.simps) simp
  qed
qed

text \<open>The loop yields one entry for each player array, in order.\<close>

lemma getVisibleAudioFiles_map:
  "getVisibleAudioFiles gs = map (playerFilesAt gs) [0..<length gs]"
  by (simp add: getVisibleAudioFiles_def visibleLoop_eq)

text \<open>
  What an entry shows, in the terms of the source: a file cell is shown when it is
  truthy, the second one only when the next player array exists and has a truthy first
  file cell.
\<close>

lemma visible_entry:
  assumes "i < length gs"
  shows "secondFile (getVisibleAudioFiles gs ! i) =
        (if truthy (js_get (gs ! i) 1) \<and> i + 1 < length gs \<and> truthy (js_get (gs ! (i + 1)) 0)
         then js_get (gs ! i) 1 else JNull)"
    and "firstFile (getVisibleAudioFiles gs ! i) =
        (if truthy (js_get (gs ! i) 0) then js_get (gs ! i) 0 else JNull)"
    and "pfNumber (getVisibleAudioFiles gs ! i) = i + 1"
  using assms by (simp_all add: getVisibleAudioFiles_map playerFilesAt_def Let_def)

text \<open>
  C6. For every game state whose file cells hold clip references or \<open>null\<close>, and every
  index \<open>i\<close> of it, entry \<open>i\<close> of the visible recordings shows the second recording of
  player array \<open>i\<close> if and only if it is not \<open>null\<close>, there is a player array \<open>i + 1\<close>,
  and the first recording of that one is not \<open>null\<close>; otherwise the entry's second
  recording is \<open>null\<close>. The first recording is shown exactly when it is not \<open>null\<close>.
  There is one entry for each player array.
\<close>

theorem C6_second_clip_waits_for_next_first:
  assumes "i < length gs" and "\<forall>p \<in> set gs. clipRefs p"
  shows "length (getVisibleAudioFiles gs) = length gs
    \<and> secondFile (getVisibleAudioFiles gs ! i) =
        (if js_get (gs ! i) 1 \<noteq> JNull \<and> i + 1 < length gs \<and> js_get (gs ! (i + 1)) 0 \<noteq> JNull
         then js_get (gs ! i) 1 else JNull)
    \<and> firstFile (getVisibleAudioFiles gs ! i) =
        (if js_get (gs ! i) 0 \<noteq> JNull then js_get (gs ! i) 0 else JNull)"
proof -
  have here: "clipRefs (gs ! i)" using assms by simp
  have "truthy (js_get (gs ! i) 0) = (js_get (gs ! i) 0 \<noteq> JNull)"
    and "truthy (js_get (gs ! i) 1) = (js_get (gs ! i) 1 \<noteq> JNull)"
    using here by (simp_all add: clipRefs_def ref_truthy)
  moreover have "truthy (js_get (gs ! (i + 1)) 0) = (js_get (gs ! (i + 1)) 0 \<noteq> JNull)"
    if "i + 1 < length gs"
  proof -
    from that assms(2) have "clipRefs (gs ! (i + 1))" by simp
    then show ?thesis by (simp add: clipRefs_def ref_truthy)
  qed
  moreover have "length (getVisibleAudioFiles gs) = length gs"
    by (simp add: getVisibleAudioFiles_map)
  ultimately show ?thesis
    unfolding visible_entry(1) [OF assms(1)] visible_entry(2) [OF assms(1)] by auto
qed

theorem C6_second_clip_waits_for_next_first_witness:
  "(0::nat) < length [[JStr ''a.wav'', JStr ''b.wav'', JStr ''Alice'', JNull],
                      [JNull, JNull, JStr ''Bob'', JNull]]
   \<and> list_all clipRefs [[JStr ''a.wav'', JStr ''b.wav'', JStr ''Alice'', JNull],
                        [JNull, JNull, JStr ''Bob'', JNull]]
   \<and> secondFile (getVisibleAudioFiles [[JStr ''a.wav'', JStr ''b.wav'', JStr ''Alice'', JNull],
                        [JNull, JNull, JStr ''Bob'', JNull]] ! 0) = JNull
   \<and> firstFile (getVisibleAudioFiles [[JStr ''a.wav'', JStr ''b.wav'', JStr ''Alice'', JNull],
                        [JNull, JNull, JStr ''Bob'', JNull]] ! 0) = JStr ''a.wav''
   \<and> list_all clipRefs [[JStr ''a.wav'', JStr ''b.wav'', JStr ''Alice'', JNull],
                        [JStr ''c.wav'', JNull, JStr ''Bob'', JNum 7]]
   \<and> secondFile (getVisibleAudioFiles [[JStr ''a.wav'', JStr ''b.wav'', JStr ''Alice'', JNull],
                        [JStr ''c.wav'', JNull, JStr ''Bob'', JNum 7]] ! 0) = JStr ''b.wav''"
  using C6_second_clip_waits_for_next_first
      [of 0 "[[JStr ''a.wav'', JStr ''b.wav'', JStr ''Alice'', JNull],
              [JNull, JNull, JStr ''Bob'', JNull]]"]
    C6_second_clip_waits_for_next_first
      [of 0 "[[JStr ''a.wav'', JStr ''b.wav'', JStr ''Alice'', JNull],
              [JStr ''c.wav'', JNull, JStr ''Bob'', JNum 7]]"]
  by (simp add: clipRefs_def js_get_def)

section \<open>Only the last player array is incomplete\<close>

lemma fileName_nonempty: "fileName i k e m \<noteq> []"
  by (simp add: fileName_def Let_def)

lemma slotOk_iff:
  "slotOk p = (\<exists>a b c d. p = [a, b, c, d] \<and> (a = JNull \<or> isClip a) \<and> (b = JNull \<or> isClip b))"
proof
  assume "slotOk p"
  then have len: "length p = 4" and refs: "clipRefs p" by (simp_all add: slotOk_def)
  from len obtain a b c d where "p = [a, b, c, d]"
    by (auto simp: length_Suc_conv numeral_eq_Suc)
  with refs show "\<exists>a b c d. p = [a, b, c, d] \<and> (a = JNull \<or> isClip a) \<and> (b = JNull \<or> isClip b)"
    by (simp add: clipRefs_def js_get_def)
next
  assume "\<exists>a b c d. p = [a, b, c, d] \<and> (a = JNull \<or> isClip a) \<and> (b = JNull \<or> isClip b)"
  then show "slotOk p" by (auto simp: slotOk_def clipRefs_def js_get_def)
qed

lemma slotOk_newPlayer: "f \<noteq> [] \<Longrightarrow> slotOk (newPlayer w f name i t)"
  by (simp add: slotOk_iff newPlayer_def)

lemma slotOk_reclaim: "slotOk p \<Longrightarrow> slotOk (p[0 := JNull, 3 := JNull])"
  by (auto simp: slotOk_iff)

lemma slotOk_second:
  assumes "slotOk p" "f \<noteq> []"
  shows "slotOk (js_set (if truthy name then js_set (js_set p 1 (JStr f)) 2 name
                         else js_set p 1 (JStr f)) 3 JNull)"
  using assms by (auto simp: slotOk_iff js_set_def)

text \<open>The status check keeps the shape of the game state.\<close>

lemma wellFormed_status:
  assumes "wellFormed gs"
  shows "wellFormed (snd (getCurrentPlayerStatus toNum now gs))"
proof -
  from status_state [of toNum now gs] show ?thesis
  proof
    assume "snd (getCurrentPlayerStatus toNum now gs) = gs"
    with assms show ?thesis by simp
  next
    assume a: "gs \<noteq> [] \<and> 4 \<le> length (last gs) \<and> truthy (js_get (last gs) 0) \<and>
      \<not> truthy (js_get (last gs) 1) \<and>
      isNewPlayer (fst (getCurrentPlayerStatus toNum now gs)) \<and>
      snd (getCurrentPlayerStatus toNum now gs) = butlast gs @ [(last gs)[0 := JNull, 3 := JNull]]"
    then have "last gs \<in> set gs" by simp
    with assms have "slotOk (last gs)" by (simp add: wellFormed_def)
    then have "slotOk ((last gs)[0 := JNull, 3 := JNull])" by (rule slotOk_reclaim)
    moreover have "\<forall>p \<in> set (butlast gs). slotOk p \<and> finished p"
      using assms by (auto simp: wellFormed_def dest: in_set_butlastD)
    ultimately show ?thesis using a by (auto simp: wellFormed_def)
  qed
qed

text \<open>
  When the status permits a first recording, the last player array, as the status check
  leaves it, is finished: it is complete, or its first recording is (now) cleared.
\<close>

lemma first_permitted_last_finished:
  assumes "canRecordFirst (fst (getCurrentPlayerStatus toNum now (bs @ [l])))" "slotOk l"
    "p \<in> set (snd (getCurrentPlayerStatus toNum now (bs @ [l])))" "p \<notin> set bs"
  shows "finished p"
  using assms
  by (auto simp: getCurrentPlayerStatus_def Let_def nth_append finished_def slotOk_def
        clipRefs_def js_get_def js_set_def
        split: if_splits dest: isClip_imp_truthy)

lemma first_permitted_all_finished:
  assumes "canRecordFirst (fst (getCurrentPlayerStatus toNum now gs))" "wellFormed gs"
    "p \<in> set (snd (getCurrentPlayerStatus toNum now gs))"
  shows "finished p"
proof (cases "gs = []")
  case True
  with assms(3) show ?thesis by (simp add: getCurrentPlayerStatus_def)
next
  case False
  then have gs: "gs = butlast gs @ [last gs]" by simp
  have ok: "slotOk (last gs)" using False assms(2) by (simp add: wellFormed_def)
  have bl: "\<forall>q \<in> set (butlast gs). finished q" using assms(2) by (simp add: wellFormed_def)
  show ?thesis
  proof (cases "p \<in> set (butlast gs)")
    case True
    with bl show ?thesis by simp
  next
    case False
    show ?thesis
      using first_permitted_last_finished [of toNum now "butlast gs" "last gs" p]
        assms(1,3) ok False gs
      by simp
  qed
qed

lemma wellFormed_first:
  assumes "wellFormed gs"
  shows "wellFormed (snd (record_first_audio toNum e req gs))"
proof -
  let ?st = "getCurrentPlayerStatus toNum (statusClock e) gs"
  have i1: "wellFormed (snd ?st)" using assms by (rule wellFormed_status)
  have push: "wellFormed (snd ?st @ [newPlayer w (fileName k 1 e m) name i t])"
    if "canRecordFirst (fst ?st)" for w k m name i t
    using i1 that first_permitted_all_finished [OF that assms]
    by (auto simp: wellFormed_def slotOk_newPlayer fileName_nonempty)
  show ?thesis
    using assms i1 push
    by (auto simp: record_first_audio_def Let_def split: prod.splits jsval.splits)
qed

lemma setSecond_snoc:
  "setSecond f name (bs @ [l]) =
     bs @ [js_set (if truthy name then js_set (js_set l 1 (JStr f)) 2 name
                   else js_set l 1 (JStr f)) 3 JNull]"
  by (simp add: setSecond_def Let_def nth_append)

lemma wellFormed_setSecond:
  assumes "wellFormed gs" "gs \<noteq> []" "f \<noteq> []"
  shows "wellFormed (setSecond f name gs)"
proof -
  from assms(2) have gs: "gs = butlast gs @ [last gs]" by simp
  have ok: "slotOk (last gs)" using assms(1,2) by (simp add: wellFormed_def)
  have bl: "\<forall>q \<in> set (butlast gs). slotOk q \<and> finished q"
    using assms(1) by (auto simp: wellFormed_def dest: in_set_butlastD)
  have "wellFormed (setSecond f name (butlast gs @ [last gs]))"
    unfolding setSecond_snoc using ok bl assms(3)
    by (auto simp: wellFormed_def slotOk_second)
  with gs show ?thesis by simp
qed

lemma wellFormed_second:
  assumes "wellFormed gs"
  shows "wellFormed (snd (record_second_audio toNum e req gs))"
proof -
  let ?st = "getCurrentPlayerStatus toNum (statusClock e) gs"
  have i1: "wellFormed (snd ?st)" using assms by (rule wellFormed_status)
  have upd: "wellFormed (setSecond (fileName k 2 e m) name (snd ?st))"
    if "snd ?st \<noteq> []" for k m name
    using i1 that by (rule wellFormed_setSecond) (rule fileName_nonempty)
  show ?thesis
    using assms i1 upd
    by (auto simp: record_second_audio_def Let_def split: prod.splits jsval.splits)
qed

lemma wellFormed_serve:
  assumes "wellFormed g"
  shows "wellFormed (serve toNum c g)"
proof (cases c)
  case Reset
  then show ?thesis by (simp add: reset_game_def wellFormed_def)
qed (simp_all add: assms wellFormed_status wellFormed_first wellFormed_second)

lemma wellFormed_run: "wellFormed g \<Longrightarrow> wellFormed (run toNum cs g)"
  by (induction cs arbitrary: g) (simp_all add: wellFormed_serve)

text \<open>
  C5. In every game state that the requests (status, first recording, second
  recording, reset) lead to from the empty one, every player array before the last has
  both recordings (neither file cell is \<open>null\<close>) or has been reclaimed (its first file cell
  is \<open>null\<close>). Each of the four requests preserves this: from a game state of which it
  holds, with four cells in every player array and clip references or \<open>null\<close> in the
  file cells, it leads to a game state of which it holds.
\<close>

theorem C5_only_last_incomplete:
  "only_last_incomplete (run toNum cs [])
   \<and> ((\<forall>p \<in> set g. slotOk p) \<and> only_last_incomplete g
        \<longrightarrow> only_last_incomplete (serve toNum c g))"
proof
  have "wellFormed []" by (simp add: wellFormed_def)
  then have "wellFormed (run toNum cs [])" by (rule wellFormed_run)
  then show "only_last_incomplete (run toNum cs [])"
    by (simp add: wellFormed_def only_last_incomplete_def)
next
  show "(\<forall>p \<in> set g. slotOk p) \<and> only_last_incomplete g
      \<longrightarrow> only_last_incomplete (serve toNum c g)"
  proof
    assume "(\<forall>p \<in> set g. slotOk p) \<and> only_last_incomplete g"
    then have "wellFormed g" by (simp add: wellFormed_def only_last_incomplete_def)
    then have "wellFormed (serve toNum c g)" by (rule wellFormed_serve)
    then show "only_last_incomplete (serve toNum c g)"
      by (simp add: wellFormed_def only_last_incomplete_def)
  qed
qed

theorem C5_only_last_incomplete_witness:
  "run noNumber [RecordFirst (envAt 1000) aliceRequest, RecordSecond (envAt 2000) aliceRequest] []
     = [[JStr ''player0_file1_1000-7.wav'', JStr ''player0_file2_2000-7.wav'', JStr ''Alice'', JNull]]
   \<and> list_all slotOk
        [[JStr ''player0_file1_1000-7.wav'', JStr ''player0_file2_2000-7.wav'', JStr ''Alice'', JNull]]
   \<and> only_last_incomplete
        [[JStr ''player0_file1_1000-7.wav'', JStr ''player0_file2_2000-7.wav'', JStr ''Alice'', JNull]]
   \<and> serve noNumber (RecordFirst (envAt 3000) aliceRequest)
        [[JStr ''player0_file1_1000-7.wav'', JStr ''player0_file2_2000-7.wav'', JStr ''Alice'', JNull]]
     = [[JStr ''player0_file1_1000-7.wav'', JStr ''player0_file2_2000-7.wav'', JStr ''Alice'', JNull],
        [JStr ''player1_file1_3000-7.wav'', JNull, JStr ''Alice'', JNum 3000]]
   \<and> only_last_incomplete
        [[JStr ''player0_file1_1000-7.wav'', JStr ''player0_file2_2000-7.wav'', JStr ''Alice'', JNull],
         [JStr ''player1_file1_3000-7.wav'', JNull, JStr ''Alice'', JNum 3000]]"
proof -
  have r: "run noNumber [RecordFirst (envAt 1000) aliceRequest, RecordSecond (envAt 2000) aliceRequest] []
     = [[JStr ''player0_file1_1000-7.wav'', JStr ''player0_file2_2000-7.wav'', JStr ''Alice'', JNull]]"
    by code_simp
  have s: "serve noNumber (RecordFirst (envAt 3000) aliceRequest)
        [[JStr ''player0_file1_1000-7.wav'', JStr ''player0_file2_2000-7.wav'', JStr ''Alice'', JNull]]
     = [[JStr ''player0_file1_1000-7.wav'', JStr ''player0_file2_2000-7.wav'', JStr ''Alice'', JNull],
        [JStr ''player1_file1_3000-7.wav'', JNull, JStr ''Alice'', JNum 3000]]"
    by code_simp
  have ok: "list_all slotOk
        [[JStr ''player0_file1_1000-7.wav'', JStr ''player0_file2_2000-7.wav'', JStr ''Alice'', JNull]]"
    by (simp add: slotOk_def clipRefs_def js_get_def)
  show ?thesis
    using C5_only_last_incomplete
      [of noNumber "[RecordFirst (envAt 1000) aliceRequest, RecordSecond (envAt 2000) aliceRequest]"
          "[[JStr ''player0_file1_1000-7.wav'', JStr ''player0_file2_2000-7.wav'', JStr ''Alice'', JNull]]"
          "RecordFirst (envAt 3000) aliceRequest"]
      ok
    unfolding r s by simp
qed

section \<open>The game state file gives back what was saved\<close>

subsection \<open>Numbers\<close>

lemma of_char_digit: "0 \<le> d \<Longrightarrow> d < 10 \<Longrightarrow> (of_char (digit d) :: int) = 48 + d"
  by (simp add: digit_def)

lemma is_digit_digit: "0 \<le> d \<Longrightarrow> d < 10 \<Longrightarrow> is_digit (digit d)"
  by (simp add: is_digit_def of_char_digit)

lemma dec_digits: "0 \<le> n \<Longrightarrow> dec n \<noteq> [] \<and> (\<forall>c \<in> set (dec n). is_digit c)"
proof (induction n rule: dec.induct)
  case (1 n)
  show ?case
  proof (cases "n < 10")
    case True
    with "1.prems" show ?thesis by (subst dec.simps, subst dec.simps) (simp add: is_digit_digit)
  next
    case False
    then have "0 \<le> n div 10" by simp
    with "1.IH" False have "\<forall>c \<in> set (dec (n div 10)). is_digit c" by simp
    moreover have "is_digit (digit (n mod 10))" by (simp add: is_digit_digit)
    ultimately show ?thesis using False by (subst dec.simps, subst dec.simps) simp
  qed
qed

lemma digitsValue_snoc: "digitsValue (ds @ [c]) = 10 * digitsValue ds + (of_char c - 48)"
  by (simp add: digitsValue_def)

lemma digitsValue_dec: "0 \<le> n \<Longrightarrow> digitsValue (dec n) = n"
proof (induction n rule: dec.induct)
  case (1 n)
  show ?case
  proof (cases "n < 10")
    case True
    with "1.prems" show ?thesis
      by (subst dec.simps) (simp add: digitsValue_def of_char_digit)
  next
    case False
    then have "digitsValue (dec (n div 10)) = n div 10" using "1.IH" by simp
    then show ?thesis using False
      by (subst dec.simps) (simp add: digitsValue_snoc of_char_digit)
  qed
qed

lemma digit_not_zero: "0 < d \<Longrightarrow> d < 10 \<Longrightarrow> digit d \<noteq> CHR ''0''"
proof
  assume d: "0 < d" "d < 10" and "digit d = CHR ''0''"
  then have "(of_char (digit d) :: int) = of_char (CHR ''0'')" by simp
  with d show False by (simp add: of_char_digit)
qed

lemma hd_dec: "0 < n \<Longrightarrow> hd (dec n) \<noteq> CHR ''0''"
proof (induction n rule: dec.induct)
  case (1 n)
  show ?case
  proof (cases "n < 10")
    case True
    with "1.prems" show ?thesis by (subst dec.simps) (simp add: digit_not_zero)
  next
    case False
    then have pos: "0 < n div 10" by simp
    then have "dec (n div 10) \<noteq> []" using dec_digits [of "n div 10"] by simp
    then have "hd (dec n) = hd (dec (n div 10))" using False by (subst dec.simps) simp
    with "1.IH" False pos show ?thesis by simp
  qed
qed

lemma dec_zero: "dec 0 = ''0''"
  by (subst dec.simps) (simp add: digit_def char_of_eq_iff)

lemma dec_no_leading_zero: "0 \<le> n \<Longrightarrow> \<not> (length (dec n) > 1 \<and> hd (dec n) = CHR ''0'')"
  by (cases "n = 0") (simp_all add: dec_zero hd_dec)

lemma afterValue_not_digit: "afterValue r \<Longrightarrow> \<not> is_digit (hd r)"
  by (auto simp: afterValue_def is_digit_def)

lemma takeWhile_digits:
  assumes "\<forall>c \<in> set ds. is_digit c" "afterValue r"
  shows "takeWhile is_digit (ds @ r) = ds" "dropWhile is_digit (ds @ r) = r"
proof -
  from assms(2) obtain c r' where r: "r = c # r'" and "\<not> is_digit c"
    using afterValue_not_digit [of r] by (cases r) (auto simp: afterValue_def)
  then show "takeWhile is_digit (ds @ r) = ds" "dropWhile is_digit (ds @ r) = r"
    using assms(1) by simp_all
qed

lemma hd_dec_not_minus: "0 \<le> n \<Longrightarrow> hd (dec n) \<noteq> CHR ''-''"
proof -
  assume "0 \<le> n"
  then have "dec n \<noteq> []" "\<forall>c \<in> set (dec n). is_digit c" using dec_digits by simp_all
  then have "is_digit (hd (dec n))" by simp
  then show ?thesis by (auto simp: is_digit_def)
qed

lemma parseDigits_dec:
  assumes "0 \<le> m" "m \<le> maxSafeInteger" "afterValue r"
  shows "parseDigits negative (dec m @ r) = Some (JNum (if negative then - m else m), r)"
proof -
  have d: "dec m \<noteq> []" "\<forall>c \<in> set (dec m). is_digit c" using assms(1) dec_digits by simp_all
  have t: "takeWhile is_digit (dec m @ r) = dec m" "dropWhile is_digit (dec m @ r) = r"
    using takeWhile_digits [OF d(2) assms(3)] by simp_all
  have sep: "hd r \<noteq> CHR ''.''" "hd r \<noteq> CHR ''e''" "hd r \<noteq> CHR ''E''"
    using assms(3) by (auto simp: afterValue_def)
  show ?thesis
    unfolding parseDigits_def Let_def t
    using d(1) dec_no_leading_zero [OF assms(1)] sep assms(2) digitsValue_dec [OF assms(1)]
    by simp
qed

lemma parseNumber_dec_int:
  assumes "\<bar>n\<bar> \<le> maxSafeInteger" "afterValue r"
  shows "parseNumber (dec_int n @ r) = Some (JNum n, r)"
proof (cases "n < 0")
  case True
  then have m: "0 \<le> - n" "- n \<le> maxSafeInteger" using assms(1) by simp_all
  show ?thesis
    using True parseDigits_dec [OF m assms(2), of True]
    by (simp add: parseNumber_def dec_int_def)
next
  case False
  then have m: "0 \<le> n" "n \<le> maxSafeInteger" using assms(1) by simp_all
  have ne: "dec n \<noteq> []" using m(1) dec_digits by simp
  then have "hd (dec n @ r) \<noteq> CHR ''-''" using hd_dec_not_minus [OF m(1)] by simp
  then show ?thesis
    using False parseDigits_dec [OF m assms(2), of False]
    by (simp add: parseNumber_def dec_int_def)
qed

subsection \<open>Strings\<close>

lemma hexValue_hexDigit: "d < 16 \<Longrightarrow> hexValue (hexDigit d) = Some d"
  by (simp add: hexValue_def hexDigit_def Let_def)

lemma hexValue_zero: "hexValue (CHR ''0'') = Some 0"
  by (simp add: hexValue_def)

lemma unicodeEscape_control:
  assumes "(of_char c :: nat) < 32"
  shows "unicodeEscape (CHR ''0'') (CHR ''0'')
           (hexDigit (of_char c div 16)) (hexDigit (of_char c mod 16)) = Some c"
proof -
  have "(of_char c :: nat) div 16 < 16" "(of_char c :: nat) mod 16 < 16" using assms by simp_all
  then show ?thesis
    using assms by (simp add: unicodeEscape_def hexValue_zero hexValue_hexDigit Let_def)
qed

lemma parseChars_short_escape:
  assumes "unescape e = Some c"
  shows "parseChars (CHR 0x5C # e # t) = consChar c (parseChars t)"
proof -
  from assms have "e \<noteq> CHR ''u''" by (auto simp: unescape_def split: if_splits)
  with assms show ?thesis by simp
qed

lemma parseChars_plain:
  assumes "c \<noteq> CHR 0x22" "c \<noteq> CHR 0x5C" "\<not> (of_char c :: nat) < 32"
  shows "parseChars (c # t) = consChar c (parseChars t)"
  using assms by simp

lemma parseChars_unicode_escape:
  assumes "unicodeEscape a b x y = Some c"
  shows "parseChars (CHR 0x5C # CHR ''u'' # a # b # x # y # t) = consChar c (parseChars t)"
  using assms by simp

lemma parseChars_quoteChar: "parseChars (quoteChar c @ t) = consChar c (parseChars t)"
proof -
  consider "c = CHR 0x08" | "c = CHR 0x09" | "c = CHR 0x0A" | "c = CHR 0x0C" | "c = CHR 0x0D"
    | "c = CHR 0x22" | "c = CHR 0x5C"
    | "c \<noteq> CHR 0x08" "c \<noteq> CHR 0x09" "c \<noteq> CHR 0x0A" "c \<noteq> CHR 0x0C" "c \<noteq> CHR 0x0D"
      "c \<noteq> CHR 0x22" "c \<noteq> CHR 0x5C" "(of_char c :: nat) < 32"
    | "c \<noteq> CHR 0x08" "c \<noteq> CHR 0x09" "c \<noteq> CHR 0x0A" "c \<noteq> CHR 0x0C" "c \<noteq> CHR 0x0D"
      "c \<noteq> CHR 0x22" "c \<noteq> CHR 0x5C" "\<not> (of_char c :: nat) < 32"
    by blast
  then show ?thesis
  proof cases
    case 1
    have "parseChars ([CHR 0x5C, CHR ''b''] @ t) = consChar c (parseChars t)"
      unfolding append_Cons append_Nil
      by (rule parseChars_short_escape) (simp add: unescape_def 1)
    moreover have "quoteChar c = [CHR 0x5C, CHR ''b'']" by (simp add: quoteChar_def 1)
    ultimately show ?thesis by simp
  next
    case 2
    have "parseChars ([CHR 0x5C, CHR ''t''] @ t) = consChar c (parseChars t)"
      unfolding append_Cons append_Nil
      by (rule parseChars_short_escape) (simp add: unescape_def 2)
    moreover have "quoteChar c = [CHR 0x5C, CHR ''t'']" by (simp add: quoteChar_def 2)
    ultimately show ?thesis by simp
  next
    case 3
    have "parseChars ([CHR 0x5C, CHR ''n''] @ t) = consChar c (parseChars t)"
      unfolding append_Cons append_Nil
      by (rule parseChars_short_escape) (simp add: unescape_def 3)
    moreover have "quoteChar c = [CHR 0x5C, CHR ''n'']" by (simp add: quoteChar_def 3)
    ultimately show ?thesis by simp
  next
    case 4
    have "parseChars ([CHR 0x5C, CHR ''f''] @ t) = consChar c (parseChars t)"
      unfolding append_Cons append_Nil
      by (rule parseChars_short_escape) (simp add: unescape_def 4)
    moreover have "quoteChar c = [CHR 0x5C, CHR ''f'']" by (simp add: quoteChar_def 4)
    ultimately show ?thesis by simp
  next
    case 5
    have "parseChars ([CHR 0x5C, CHR ''r''] @ t) = consChar c (parseChars t)"
      unfolding append_Cons append_Nil
      by (rule parseChars_short_escape) (simp add: unescape_def 5)
    moreover have "quoteChar c = [CHR 0x5C, CHR ''r'']" by (simp add: quoteChar_def 5)
    ultimately show ?thesis by simp
  next
    case 6
    have "parseChars ([CHR 0x5C, CHR 0x22] @ t) = consChar c (parseChars t)"
      unfolding append_Cons append_Nil
      by (rule parseChars_short_escape) (simp add: unescape_def 6)
    moreover have "quoteChar c = [CHR 0x5C, CHR 0x22]" by (simp add: quoteChar_def 6)
    ultimately show ?thesis by simp
  next
    case 7
    have "parseChars ([CHR 0x5C, CHR 0x5C] @ t) = consChar c (parseChars t)"
      unfolding append_Cons append_Nil
      by (rule parseChars_short_escape) (simp add: unescape_def 7)
    moreover have "quoteChar c = [CHR 0x5C, CHR 0x5C]" by (simp add: quoteChar_def 7)
    ultimately show ?thesis by simp
  next
    case 8
    then have q: "quoteChar c = [CHR 0x5C, CHR ''u'', CHR ''0'', CHR ''0'',
        hexDigit (of_char c div 16), hexDigit (of_char c mod 16)]"
      by (simp add: quoteChar_def)
    have "parseChars ([CHR 0x5C, CHR ''u'', CHR ''0'', CHR ''0'',
        hexDigit (of_char c div 16), hexDigit (of_char c mod 16)] @ t) = consChar c (parseChars t)"
      unfolding append_Cons append_Nil
      by (rule parseChars_unicode_escape) (rule unicodeEscape_control [OF 8(8)])
    with q show ?thesis by simp
  next
    case 9
    then have q: "quoteChar c = [c]" by (simp add: quoteChar_def)
    have "parseChars ([c] @ t) = consChar c (parseChars t)"
      unfolding append_Cons append_Nil by (rule parseChars_plain [OF 9(6,7,8)])
    with q show ?thesis by simp
  qed
qed

lemma parseChars_quoted:
  "parseChars (concat (map quoteChar s) @ CHR 0x22 # r) = Some (s, r)"
  by (induction s) (simp_all add: parseChars_quoteChar consChar_def)

subsection \<open>Cells\<close>

lemma cellStart_plain: "cellStart c \<Longrightarrow> \<not> is_ws c \<and> c \<noteq> CHR '']''"
  by (auto simp: cellStart_def is_ws_def is_digit_def)

lemma numberStart:
  "\<exists>c cs. dec_int n = c # cs \<and> (c = CHR ''-'' \<or> is_digit c)"
proof (cases "n < 0")
  case True
  then show ?thesis by (simp add: dec_int_def)
next
  case False
  then have "dec n \<noteq> []" "\<forall>c \<in> set (dec n). is_digit c" using dec_digits [of n] by simp_all
  then obtain c cs where "dec n = c # cs" "is_digit c" by (cases "dec n") auto
  with False show ?thesis by (simp add: dec_int_def)
qed

lemma serializeCell_start: "\<exists>c cs. serializeCell v = c # cs \<and> cellStart c"
proof (cases v)
  case (JNum n)
  with numberStart [of n] show ?thesis by (auto simp: cellStart_def)
qed (simp_all add: cellStart_def quoteJSONString_def)

lemma parseCell_number:
  assumes "s = c # cs" "c = CHR ''-'' \<or> is_digit c"
  shows "parseCell (s @ r) = parseNumber (s @ r)"
proof -
  have "c \<noteq> CHR ''n''" "c \<noteq> CHR ''t''" "c \<noteq> CHR ''f''" "c \<noteq> CHR 0x22"
    using assms(2) by (auto simp: is_digit_def)
  then show ?thesis
    unfolding parseCell_def assms(1) by (simp add: numeral_eq_Suc)
qed

lemma parseCell_serializeCell:
  assumes "storable v" "afterValue r"
  shows "parseCell (serializeCell v @ r) = Some (v, r)"
proof (cases v)
  case JUndefined
  with assms(1) show ?thesis by simp
next
  case JNull
  then show ?thesis by (simp add: parseCell_def)
next
  case (JBool b)
  then show ?thesis by (cases b) (simp_all add: parseCell_def numeral_eq_Suc)
next
  case (JNum n)
  from numberStart [of n] obtain c cs where s: "dec_int n = c # cs" "c = CHR ''-'' \<or> is_digit c"
    by blast
  have "parseCell (dec_int n @ r) = parseNumber (dec_int n @ r)" using s by (rule parseCell_number)
  also have "\<dots> = Some (JNum n, r)" using assms JNum by (simp add: parseNumber_dec_int)
  finally show ?thesis using JNum by simp
next
  case (JStr s)
  have "parseCell (CHR 0x22 # concat (map quoteChar s) @ CHR 0x22 # r)
      = map_option (\<lambda>(str, rest). (JStr str, rest))
          (parseChars (concat (map quoteChar s) @ CHR 0x22 # r))"
    by (simp add: parseCell_def numeral_eq_Suc)
  then show ?thesis using JStr by (simp add: quoteJSONString_def parseChars_quoted)
qed

subsection \<open>Arrays\<close>

lemma skip_ws_start: "\<not> is_ws c \<Longrightarrow> skip_ws (c # s) = c # s"
  by (simp add: skip_ws_def)

lemma skip_ws_indent:
  assumes "set ind \<subseteq> {CHR '' ''}" "\<not> is_ws c"
  shows "skip_ws (CHR 0x0A # ind @ c # s) = c # s"
proof -
  have ws: "\<And>x. x \<in> set (CHR 0x0A # ind) \<Longrightarrow> is_ws x"
    using assms(1) by (auto simp: is_ws_def)
  have "dropWhile is_ws ((CHR 0x0A # ind) @ c # s) = dropWhile is_ws (c # s)"
    by (rule dropWhile_append2) (rule ws)
  then show ?thesis using assms(2) by (simp add: skip_ws_def)
qed

text \<open>
  The elements of a printed array are read back, when each of them is (by \<open>p\<close> from
  what \<open>pr\<close> prints) and none starts with white space.
\<close>

lemma parseElements_join:
  assumes elem: "\<And>v r. v \<in> set (v0 # vs) \<Longrightarrow> afterValue r \<Longrightarrow> p (pr v @ r) = Some (v, r)"
    and start: "\<And>v. v \<in> set (v0 # vs) \<Longrightarrow> \<exists>c cs. pr v = c # cs \<and> \<not> is_ws c"
    and ind: "set ind \<subseteq> {CHR '' ''}" "set back \<subseteq> {CHR '' ''}"
  shows "parseElements p (CHR 0x0A # ind @ join (CHR '','' # CHR 0x0A # ind) (map pr (v0 # vs))
           @ CHR 0x0A # back @ CHR '']'' # rest) = Some (v0 # vs, rest)"
  using elem start
proof (induction vs arbitrary: v0)
  case Nil
  from Nil(2) [of v0] obtain c cs where c: "pr v0 = c # cs" "\<not> is_ws c" by auto
  let ?r = "CHR 0x0A # back @ CHR '']'' # rest"
  have "skip_ws (CHR 0x0A # ind @ pr v0 @ ?r) = pr v0 @ ?r"
    using skip_ws_indent [OF ind(1) c(2)] c(1) by simp
  moreover have "p (pr v0 @ ?r) = Some (v0, ?r)"
    by (rule Nil(1)) (simp_all add: afterValue_def)
  moreover have "skip_ws ?r = CHR '']'' # rest"
    using skip_ws_indent [OF ind(2), of "CHR '']''" rest] by (simp add: is_ws_def)
  ultimately show ?case
    by (subst parseElements.simps) simp
next
  case (Cons v1 vs)
  from Cons(3) [of v0] obtain c cs where c: "pr v0 = c # cs" "\<not> is_ws c" by auto
  let ?tail = "CHR 0x0A # ind @ join (CHR '','' # CHR 0x0A # ind) (map pr (v1 # vs))
           @ CHR 0x0A # back @ CHR '']'' # rest"
  let ?r = "CHR '','' # ?tail"
  have tail: "parseElements p ?tail = Some (v1 # vs, rest)"
  proof (rule Cons.IH)
    fix v r
    assume "v \<in> set (v1 # vs)" "afterValue r"
    then show "p (pr v @ r) = Some (v, r)" using Cons(2) [of v r] by simp
  next
    fix v
    assume "v \<in> set (v1 # vs)"
    then show "\<exists>c cs. pr v = c # cs \<and> \<not> is_ws c" using Cons(3) [of v] by simp
  qed
  have shape: "CHR 0x0A # ind @ join (CHR '','' # CHR 0x0A # ind) (map pr (v0 # v1 # vs))
           @ CHR 0x0A # back @ CHR '']'' # rest = CHR 0x0A # ind @ pr v0 @ ?r"
    by simp
  have "skip_ws (CHR 0x0A # ind @ pr v0 @ ?r) = pr v0 @ ?r"
    using skip_ws_indent [OF ind(1) c(2)] c(1) by simp
  moreover have "p (pr v0 @ ?r) = Some (v0, ?r)"
    by (rule Cons(2)) (simp_all add: afterValue_def)
  moreover have "skip_ws ?r = ?r"
    by (rule skip_ws_start) (simp add: is_ws_def)
  moreover have "length ?tail < length (CHR 0x0A # ind @ pr v0 @ ?r)" by simp
  ultimately show ?case
    unfolding shape using tail by (subst parseElements.simps) simp
qed

lemma parseArray_serialize:
  assumes elem: "\<And>v r. v \<in> set vs \<Longrightarrow> afterValue r \<Longrightarrow> p (pr v @ r) = Some (v, r)"
    and start: "\<And>v. v \<in> set vs \<Longrightarrow> \<exists>c cs. pr v = c # cs \<and> \<not> is_ws c \<and> c \<noteq> CHR '']''"
    and spaces: "set back \<subseteq> {CHR '' ''}"
  shows "parseArray p (serializeJSONArray back (map pr vs) @ rest) = Some (vs, rest)"
proof (cases vs)
  case Nil
  then show ?thesis
    by (simp add: parseArray_def serializeJSONArray_def skip_ws_def is_ws_def)
next
  case (Cons v0 vs')
  let ?ind = "back @ ''  ''"
  let ?body = "CHR 0x0A # ?ind @ join (CHR '','' # CHR 0x0A # ?ind) (map pr (v0 # vs'))
           @ CHR 0x0A # back @ CHR '']'' # rest"
  have ind: "set ?ind \<subseteq> {CHR '' ''}" using spaces by auto
  have shape: "serializeJSONArray back (map pr vs) @ rest = CHR ''['' # ?body"
    using Cons by (simp add: serializeJSONArray_def Let_def)
  from start [of v0] Cons obtain c cs where c: "pr v0 = c # cs" "\<not> is_ws c" "c \<noteq> CHR '']''"
    by auto
  have "\<exists>t. ?body = CHR 0x0A # ?ind @ c # t"
  proof (cases vs')
    case Nil
    then show ?thesis using c(1) by simp
  next
    case (Cons v1 vs'')
    then show ?thesis using c(1) by simp
  qed
  then obtain t where t: "?body = CHR 0x0A # ?ind @ c # t" by blast
  have "skip_ws ?body = c # t"
    unfolding t by (rule skip_ws_indent [OF ind c(2)])
  then have notempty: "\<not> (skip_ws ?body \<noteq> [] \<and> hd (skip_ws ?body) = CHR '']'')"
    using c(3) by simp
  have "parseElements p ?body = Some (v0 # vs', rest)"
  proof (rule parseElements_join [OF _ _ ind spaces])
    fix v r
    assume "v \<in> set (v0 # vs')" "afterValue r"
    then show "p (pr v @ r) = Some (v, r)" using elem Cons by simp
  next
    fix v
    assume "v \<in> set (v0 # vs')"
    then show "\<exists>c cs. pr v = c # cs \<and> \<not> is_ws c" using start [of v] Cons by auto
  qed
  then show ?thesis
    unfolding shape parseArray_def using notempty Cons by simp
qed

subsection \<open>Game states\<close>

lemma serializeJSONArray_start:
  "\<exists>cs. serializeJSONArray stepback partial = CHR ''['' # cs"
  by (simp add: serializeJSONArray_def Let_def)

lemma parsePlayer_serialize:
  assumes "\<forall>v \<in> set pl. storable v"
  shows "parseArray parseCell (serializeJSONArray ''  '' (map serializeCell pl) @ r) = Some (pl, r)"
proof (rule parseArray_serialize)
  fix v r
  assume "v \<in> set pl" "afterValue r"
  then show "parseCell (serializeCell v @ r) = Some (v, r)"
    using assms by (simp add: parseCell_serializeCell)
next
  fix v
  from serializeCell_start [of v] obtain c cs where "serializeCell v = c # cs" "cellStart c"
    by blast
  then show "\<exists>c cs. serializeCell v = c # cs \<and> \<not> is_ws c \<and> c \<noteq> CHR '']''"
    using cellStart_plain [of c] by simp
qed simp

text \<open>What \<open>JSON.stringify\<close> writes of a game state, \<open>JSON.parse\<close> reads back.\<close>

lemma JSON_parse_stringify:
  assumes "\<forall>p \<in> set gs. \<forall>v \<in> set p. storable v"
  shows "JSON_parse (JSON_stringify gs) = Some gs"
proof -
  let ?pr = "\<lambda>p. serializeJSONArray ''  '' (map serializeCell p)"
  have "parseArray (parseArray parseCell) (serializeJSONArray [] (map ?pr gs) @ []) = Some (gs, [])"
  proof (rule parseArray_serialize)
    fix p r
    assume "p \<in> set gs"
    then show "parseArray parseCell (?pr p @ r) = Some (p, r)"
      using assms by (simp add: parsePlayer_serialize)
  next
    fix p
    from serializeJSONArray_start [of "''  ''" "map serializeCell p"]
    show "\<exists>c cs. ?pr p = c # cs \<and> \<not> is_ws c \<and> c \<noteq> CHR '']''"
      by (auto simp: is_ws_def)
  qed simp
  moreover have "skip_ws (serializeJSONArray [] (map ?pr gs)) = serializeJSONArray [] (map ?pr gs)"
    using serializeJSONArray_start [of "[]" "map ?pr gs"]
    by (auto simp: skip_ws_def is_ws_def)
  ultimately show ?thesis
    by (simp add: JSON_parse_def JSON_stringify_def skip_ws_def)
qed

text \<open>
  C9. For every game state whose cells the file holds as they are (no \<open>undefined\<close>,
  numbers within the safe integers), and so for every list of 4-tuples of a clip
  reference or \<open>null\<close>, a clip reference or \<open>null\<close>, a name and such a time stamp or
  \<open>null\<close>: saving the game state and loading the file gives the same game state,
  whatever the file and the game state in memory were before.
\<close>

theorem C9_save_then_load:
  assumes "\<forall>p \<in> set gameState. \<forall>v \<in> set p. storable v"
  shows "loadGameState (saveGameState True gameState file) other = Some gameState"
  using assms by (simp add: loadGameState_def saveGameState_def JSON_parse_stringify)

theorem C9_save_then_load_witness:
  "list_all (list_all storable)
     [[JStr ''a.wav'', JStr ''b.wav'', JStr ''Alice'', JNull],
      [JStr ''c.wav'', JNull, JStr ''Bob'', JNum 1762176000000]]
   \<and> loadGameState
        (saveGameState True
          [[JStr ''a.wav'', JStr ''b.wav'', JStr ''Alice'', JNull],
           [JStr ''c.wav'', JNull, JStr ''Bob'', JNum 1762176000000]] None) []
     = Some [[JStr ''a.wav'', JStr ''b.wav'', JStr ''Alice'', JNull],
             [JStr ''c.wav'', JNull, JStr ''Bob'', JNum 1762176000000]]"
  using C9_save_then_load
    [of "[[JStr ''a.wav'', JStr ''b.wav'', JStr ''Alice'', JNull],
          [JStr ''c.wav'', JNull, JStr ''Bob'', JNum 1762176000000]]" None "[]"]
  by (simp add: maxSafeInteger_def)

text \<open>The text of a small game state, and a text with other white space read back.\<close>

lemma JSON_stringify_example:
  "JSON_stringify [[JStr ''a.wav'', JNull, JStr ''Al'', JNum 12], []]
     = ''['' @ [CHR 0x0A] @ ''  ['' @ [CHR 0x0A] @ ''    '' @ [CHR 0x22] @ ''a.wav'' @ [CHR 0x22]
       @ '','' @ [CHR 0x0A] @ ''    null,'' @ [CHR 0x0A] @ ''    '' @ [CHR 0x22] @ ''Al''
       @ [CHR 0x22] @ '','' @ [CHR 0x0A] @ ''    12'' @ [CHR 0x0A] @ ''  ],'' @ [CHR 0x0A]
       @ ''  []'' @ [CHR 0x0A] @ '']''"
  by code_simp

lemma JSON_parse_example:
  "JSON_parse ('' [ [ '' @ [CHR 0x22, CHR 0x5C] @ ''u0041'' @ [CHR 0x22] @ '', -12 ] , [ ] ] '')
     = Some [[JStr ''A'', JNum (- 12)], []]"
  by code_simp

end
